theory Spec2Isabelle
  imports Main "HOL-Library.Word" "HOL-Library.AList"
begin

section \<open>Python values, errors and the operations the extractors use\<close>

text \<open>
  The module \<^verbatim>\<open>planetaryum/extractors.py\<close> works on the objects that
  \<^verbatim>\<open>json.load\<close> returns and on a few more Python values (the thumbnail box, raw
  bytes, the document name). One datatype holds them all. A \<^verbatim>\<open>dict\<close> is an
  association list in insertion order with string keys; a \<^verbatim>\<open>float\<close> is its 64-bit
  pattern (the module does no arithmetic on floats). A \<^verbatim>\<open>str\<close> is a list of
  characters with code points below 256.
\<close>

type_synonym bytes = "8 word list"

datatype pyval =
    PNone
  | PBool bool
  | PInt int
  | PFloat "64 word"
  | PStr string
  | PBytes bytes
  | PList "pyval list"
  | PTuple "pyval list"
  | PDict "(string \<times> pyval) list"

text \<open>
  Exceptions by class. A constructor stands for the class and its subclasses:
  \<open>ValueError\<close> covers \<^verbatim>\<open>json.JSONDecodeError\<close> and \<^verbatim>\<open>binascii.Error\<close>,
  \<open>OSError\<close> covers \<^verbatim>\<open>PIL.UnidentifiedImageError\<close>, \<open>OtherError\<close> is an exception
  of a collaborator outside these hierarchies.
\<close>

datatype error =
    KeyError string
  | TypeError
  | AttributeError
  | ValueError
  | OSError
  | RuntimeError
  | OtherError string

text \<open>Truth value of an object, as \<^verbatim>\<open>if self.thumbnails:\<close> and \<^verbatim>\<open>or\<close> test it.\<close>

fun truthy :: "pyval \<Rightarrow> bool" where
  "truthy PNone = False"
| "truthy (PBool b) = b"
| "truthy (PInt i) = (i \<noteq> 0)"
| "truthy (PFloat w) = (w \<noteq> 0 \<and> w \<noteq> 2 ^ 63)"
| "truthy (PStr s) = (s \<noteq> [])"
| "truthy (PBytes b) = (b \<noteq> [])"
| "truthy (PList xs) = (xs \<noteq> [])"
| "truthy (PTuple xs) = (xs \<noteq> [])"
| "truthy (PDict kvs) = (kvs \<noteq> [])"

text \<open>\<^verbatim>\<open>x.get(k, default)\<close>: only a dict has the method.\<close>

fun py_get :: "pyval \<Rightarrow> string \<Rightarrow> pyval \<Rightarrow> error + pyval" where
  "py_get (PDict kvs) k dflt = Inr (case map_of kvs k of None \<Rightarrow> dflt | Some v \<Rightarrow> v)"
| "py_get _ k dflt = Inl AttributeError"

text \<open>\<^verbatim>\<open>x[k]\<close> with a string key: a missing key of a dict is a \<^verbatim>\<open>KeyError\<close>.\<close>

fun py_getitem :: "pyval \<Rightarrow> string \<Rightarrow> error + pyval" where
  "py_getitem (PDict kvs) k = (case map_of kvs k of None \<Rightarrow> Inl (KeyError k) | Some v \<Rightarrow> Inr v)"
| "py_getitem _ k = Inl TypeError"

text \<open>
  \<^verbatim>\<open>x[k] = v\<close> with a string key: a dict keeps the position of a key it already has
  and appends a new one; every other type refuses.
\<close>

fun py_setitem :: "pyval \<Rightarrow> string \<Rightarrow> pyval \<Rightarrow> error + pyval" where
  "py_setitem (PDict kvs) k v = Inr (PDict (AList.update k v kvs))"
| "py_setitem _ k v = Inl TypeError"

text \<open>\<^verbatim>\<open>x.items()\<close>.\<close>

fun py_items :: "pyval \<Rightarrow> error + (string \<times> pyval) list" where
  "py_items (PDict kvs) = Inr kvs"
| "py_items _ = Inl AttributeError"

text \<open>
  The elements a \<^verbatim>\<open>for\<close> loop visits: a dict gives its keys, a string its
  characters, bytes their values; the other types are not iterable.
\<close>

fun py_iter :: "pyval \<Rightarrow> error + pyval list" where
  "py_iter (PList xs) = Inr xs"
| "py_iter (PTuple xs) = Inr xs"
| "py_iter (PDict kvs) = Inr (map (\<lambda>kv. PStr (fst kv)) kvs)"
| "py_iter (PStr s) = Inr (map (\<lambda>c. PStr [c]) s)"
| "py_iter (PBytes b) = Inr (map (\<lambda>w. PInt (uint w)) b)"
| "py_iter _ = Inl TypeError"

text \<open>\<^verbatim>\<open>str.lower()\<close> on code points below 256.\<close>

definition lower_char :: "char \<Rightarrow> char" where
  "lower_char c =
     (let n = (of_char c :: nat)
      in if (65 \<le> n \<and> n \<le> 90) \<or> (192 \<le> n \<and> n \<le> 222 \<and> n \<noteq> 215)
         then char_of (n + 32) else c)"

definition lower :: "string \<Rightarrow> string" where
  "lower s = map lower_char s"

section \<open>Collaborators\<close>

text \<open>
  The standard library, PIL and nbconvert are not part of the repository; the model
  takes them as a record of functions. Each call that can raise returns a sum.
  \<open>'img\<close> is PIL's image object, \<open>thumbnail\<close> stands for the in-place
  \<^verbatim>\<open>Image.thumbnail(size)\<close> and returns the resized image, \<open>save_png\<close> for
  \<^verbatim>\<open>t.save(out, format="PNG")\<close> followed by \<^verbatim>\<open>out.getbuffer()\<close>,
  \<open>b64encode\<close> for \<^verbatim>\<open>base64.b64encode(...).decode()\<close>, and \<open>from_file\<close> for
  \<^verbatim>\<open>HTMLExporter.from_file\<close> of an exporter with the given template.
\<close>

record 'img lib =
  json_loads :: "bytes \<Rightarrow> error + pyval"
  b64decode :: "pyval \<Rightarrow> error + bytes"
  image_open :: "bytes \<Rightarrow> error + 'img"
  thumbnail :: "pyval \<Rightarrow> 'img \<Rightarrow> error + 'img"
  save_png :: "'img \<Rightarrow> error + bytes"
  b64encode :: "bytes \<Rightarrow> string"
  from_file :: "pyval \<Rightarrow> bytes \<Rightarrow> pyval \<Rightarrow> error + pyval"

text \<open>A readable stream: the document's bytes and the read position.\<close>

record stream =
  content :: bytes
  pos :: nat

text \<open>\<^verbatim>\<open>nb.read()\<close>: everything from the position to the end.\<close>

definition read :: "stream \<Rightarrow> bytes" where
  "read f = drop (pos f) (content f)"

section \<open>The extractors\<close>

datatype extractor =
    Extractor string
  | JSONExtractor string
  | MetadataExtractor string pyval
  | BlobExtractor string
  | HTMLExtractor string pyval

text \<open>\<^verbatim>\<open>self.__class__.__name__\<close> of each class.\<close>

datatype variant = CExtractor | CJSONExtractor | CMetadataExtractor | CBlobExtractor | CHTMLExtractor

fun class_name :: "variant \<Rightarrow> string" where
  "class_name CExtractor = ''Extractor''"
| "class_name CJSONExtractor = ''JSONExtractor''"
| "class_name CMetadataExtractor = ''MetadataExtractor''"
| "class_name CBlobExtractor = ''BlobExtractor''"
| "class_name CHTMLExtractor = ''HTMLExtractor''"

text \<open>
  \<^verbatim>\<open>Extractor.__init__\<close>:
  \<^verbatim>\<open>self.name = self.__class__.__name__ if name is None else name\<close>.
\<close>

definition Extractor_init :: "variant \<Rightarrow> string option \<Rightarrow> string" where
  "Extractor_init cls name = (case name of None \<Rightarrow> class_name cls | Some n \<Rightarrow> n)"

text \<open>
  \<^verbatim>\<open>MetadataExtractor.__init__(name=None, thumbnails=False)\<close>: only the object
  \<^verbatim>\<open>True\<close> is replaced by the default box.
\<close>

definition MetadataExtractor_init :: "string option \<Rightarrow> pyval \<Rightarrow> extractor" where
  "MetadataExtractor_init name thumbnails =
     MetadataExtractor (Extractor_init CMetadataExtractor name)
       (if thumbnails = PBool True then PTuple [PInt 200, PInt 200] else thumbnails)"

text \<open>
  \<^verbatim>\<open>HTMLExtractor.__init__(name=None, template_file=None)\<close>:
  \<^verbatim>\<open>template_file or 'basic.tpl'\<close>.
\<close>

definition HTMLExtractor_init :: "string option \<Rightarrow> pyval \<Rightarrow> extractor" where
  "HTMLExtractor_init name template_file =
     HTMLExtractor (Extractor_init CHTMLExtractor name)
       (if truthy template_file then template_file else PStr ''basic.tpl'')"

text \<open>The three classes that inherit \<^verbatim>\<open>Extractor.__init__\<close> unchanged.\<close>

definition new_extractor :: "variant \<Rightarrow> string option \<Rightarrow> extractor" where
  "new_extractor cls name =
     (case cls of
        CExtractor \<Rightarrow> Extractor (Extractor_init cls name)
      | CJSONExtractor \<Rightarrow> JSONExtractor (Extractor_init cls name)
      | CBlobExtractor \<Rightarrow> BlobExtractor (Extractor_init cls name)
      | CMetadataExtractor \<Rightarrow> MetadataExtractor_init name (PBool False)
      | CHTMLExtractor \<Rightarrow> HTMLExtractor_init name PNone)"

fun ename :: "extractor \<Rightarrow> string" where
  "ename (Extractor n) = n"
| "ename (JSONExtractor n) = n"
| "ename (MetadataExtractor n t) = n"
| "ename (BlobExtractor n) = n"
| "ename (HTMLExtractor n t) = n"

subsection \<open>The thumbnail loops of \<^verbatim>\<open>MetadataExtractor.__call__\<close>\<close>

text \<open>
  What the loops change: the list \<^verbatim>\<open>thumbs\<close> and what \<^verbatim>\<open>print\<close> wrote.
  A loop returns \<open>Some e\<close> when the exception \<open>e\<close> left it.
\<close>

record st =
  thumbs :: "string list"
  stdout :: "string list"

definition st0 :: st where
  "st0 = \<lparr>thumbs = [], stdout = []\<rparr>"

definition cant_decode :: "string \<Rightarrow> string" where
  "cant_decode key = ''Can't decode image of type: '' @ key @ ''.''"

definition data_uri :: "string \<Rightarrow> string" where
  "data_uri b64 = ''data:image/png;base64,'' @ b64"

text \<open>
  The body of \<^verbatim>\<open>for d in data\<close>. Only a \<^verbatim>\<open>RuntimeError\<close> of the two calls in
  the \<^verbatim>\<open>try\<close> block is caught; \<^verbatim>\<open>thumbnail\<close> and \<^verbatim>\<open>save\<close> are outside
  the block.
\<close>

definition try_open :: "'img lib \<Rightarrow> pyval \<Rightarrow> error + 'img" where
  "try_open L d = (case b64decode L d of Inl e \<Rightarrow> Inl e | Inr bs \<Rightarrow> image_open L bs)"

definition make_thumb :: "'img lib \<Rightarrow> pyval \<Rightarrow> 'img \<Rightarrow> error + string" where
  "make_thumb L box t =
     (case thumbnail L box t of
        Inl e \<Rightarrow> Inl e
      | Inr t' \<Rightarrow> (case save_png L t' of
                    Inl e \<Rightarrow> Inl e
                  | Inr png \<Rightarrow> Inr (data_uri (b64encode L png))))"

definition payload_step :: "'img lib \<Rightarrow> pyval \<Rightarrow> string \<Rightarrow> pyval \<Rightarrow> st \<Rightarrow> error option \<times> st" where
  "payload_step L box key d s =
     (case try_open L d of
        Inl e \<Rightarrow> (if e = RuntimeError
                  then (None, s\<lparr>stdout := stdout s @ [cant_decode key]\<rparr>)
                  else (Some e, s))
      | Inr t \<Rightarrow> (case make_thumb L box t of
                   Inl e \<Rightarrow> (Some e, s)
                 | Inr u \<Rightarrow> (None, s\<lparr>thumbs := thumbs s @ [u]\<rparr>)))"

fun for_payloads :: "'img lib \<Rightarrow> pyval \<Rightarrow> string \<Rightarrow> pyval list \<Rightarrow> st \<Rightarrow> error option \<times> st" where
  "for_payloads L box key [] s = (None, s)"
| "for_payloads L box key (d # ds) s =
     (case payload_step L box key d s of
        (Some e, s') \<Rightarrow> (Some e, s')
      | (None, s') \<Rightarrow> for_payloads L box key ds s')"

text \<open>\<^verbatim>\<open>if type(data) is not list: data = [data]\<close>.\<close>

fun as_list :: "pyval \<Rightarrow> pyval list" where
  "as_list (PList xs) = xs"
| "as_list v = [v]"

definition image_key :: "string \<Rightarrow> bool" where
  "image_key key = (lower key \<in> set [''image/png'', ''image/jpeg''])"

fun for_items :: "'img lib \<Rightarrow> pyval \<Rightarrow> (string \<times> pyval) list \<Rightarrow> st \<Rightarrow> error option \<times> st" where
  "for_items L box [] s = (None, s)"
| "for_items L box ((key, data) # rest) s =
     (if image_key key
      then (case for_payloads L box key (as_list data) s of
              (Some e, s') \<Rightarrow> (Some e, s')
            | (None, s') \<Rightarrow> for_items L box rest s')
      else for_items L box rest s)"

text \<open>
  \<^verbatim>\<open>for out in cell.get('outputs', [])\<close>. The body rebinds \<^verbatim>\<open>out\<close> to a
  buffer, after the iterator of \<^verbatim>\<open>.items()\<close> has been made, so the rebinding does
  not change what the loops visit.
\<close>

fun for_outputs :: "'img lib \<Rightarrow> pyval \<Rightarrow> pyval list \<Rightarrow> st \<Rightarrow> error option \<times> st" where
  "for_outputs L box [] s = (None, s)"
| "for_outputs L box (out # outs) s =
     (case py_get out ''output_type'' PNone of
        Inl e \<Rightarrow> (Some e, s)
      | Inr ty \<Rightarrow>
          if ty = PStr ''display_data''
          then (case py_get out ''data'' (PDict []) of
                  Inl e \<Rightarrow> (Some e, s)
                | Inr dat \<Rightarrow>
                    (case py_items dat of
                       Inl e \<Rightarrow> (Some e, s)
                     | Inr items \<Rightarrow>
                         (case for_items L box items s of
                            (Some e, s') \<Rightarrow> (Some e, s')
                          | (None, s') \<Rightarrow> for_outputs L box outs s')))
          else for_outputs L box outs s)"

fun for_cells :: "'img lib \<Rightarrow> pyval \<Rightarrow> pyval list \<Rightarrow> st \<Rightarrow> error option \<times> st" where
  "for_cells L box [] s = (None, s)"
| "for_cells L box (cell # cells) s =
     (case py_get cell ''outputs'' (PList []) of
        Inl e \<Rightarrow> (Some e, s)
      | Inr os \<Rightarrow>
          (case py_iter os of
             Inl e \<Rightarrow> (Some e, s)
           | Inr outs \<Rightarrow>
               (case for_outputs L box outs s of
                  (Some e, s') \<Rightarrow> (Some e, s')
                | (None, s') \<Rightarrow> for_cells L box cells s')))"

subsection \<open>\<^verbatim>\<open>__call__\<close> of each class\<close>

text \<open>
  A call returns the value or the exception, and the lines it printed.
  \<^verbatim>\<open>JSONExtractor.__call__\<close> is \<^verbatim>\<open>json.load(nb)\<close>, which reads the stream to
  its end and parses the text.
\<close>

definition JSONExtractor_call :: "'img lib \<Rightarrow> stream \<Rightarrow> string \<Rightarrow> error + pyval" where
  "JSONExtractor_call L nb name = json_loads L (read nb)"

text \<open>
  \<^verbatim>\<open>MetadataExtractor.__call__\<close>. \<^verbatim>\<open>thumbs = meta['thumbs'] = []\<close> stores in
  \<^verbatim>\<open>meta\<close> the very list the loops append to, so the returned mapping holds the
  final list under \<^verbatim>\<open>'thumbs'\<close>.
\<close>

definition MetadataExtractor_call ::
  "'img lib \<Rightarrow> pyval \<Rightarrow> stream \<Rightarrow> string \<Rightarrow> (error + pyval) \<times> string list" where
  "MetadataExtractor_call L box nb name =
     (case JSONExtractor_call L nb name of
        Inl e \<Rightarrow> (Inl e, [])
      | Inr doc \<Rightarrow>
          (case py_get doc ''metadata'' (PDict []) of
             Inl e \<Rightarrow> (Inl e, [])
           | Inr meta \<Rightarrow>
               if truthy box
               then (case py_setitem meta ''thumbs'' (PList []) of
                       Inl e \<Rightarrow> (Inl e, [])
                     | Inr meta0 \<Rightarrow>
                         (case py_getitem doc ''cells'' of
                            Inl e \<Rightarrow> (Inl e, [])
                          | Inr cs \<Rightarrow>
                              (case py_iter cs of
                                 Inl e \<Rightarrow> (Inl e, [])
                               | Inr cells \<Rightarrow>
                                   (case for_cells L box cells st0 of
                                      (Some e, s) \<Rightarrow> (Inl e, stdout s)
                                    | (None, s) \<Rightarrow>
                                        (py_setitem meta0 ''thumbs'' (PList (map PStr (thumbs s))),
                                         stdout s)))))
               else (Inr meta, [])))"

definition BlobExtractor_call :: "stream \<Rightarrow> string \<Rightarrow> error + pyval" where
  "BlobExtractor_call nb name = Inr (PBytes (read nb))"

text \<open>
  \<^verbatim>\<open>HTMLExtractor.__call__\<close>: the exporter's answer is unpacked into two names
  (a \<^verbatim>\<open>TypeError\<close> when it cannot be iterated, a \<^verbatim>\<open>ValueError\<close> when it has
  not two elements), the file name is stored in the second, and both are returned in
  a new dict.
\<close>

definition HTMLExtractor_call :: "'img lib \<Rightarrow> pyval \<Rightarrow> stream \<Rightarrow> string \<Rightarrow> error + pyval" where
  "HTMLExtractor_call L template nb name =
     (case from_file L template (read nb) (PDict [(''filename'', PStr name)]) of
        Inl e \<Rightarrow> Inl e
      | Inr r \<Rightarrow>
          (case py_iter r of
             Inl e \<Rightarrow> Inl e
           | Inr [html, meta] \<Rightarrow>
               (case py_setitem meta ''filename'' (PStr name) of
                  Inl e \<Rightarrow> Inl e
                | Inr meta' \<Rightarrow> Inr (PDict [(''meta'', meta'), (''html'', html)]))
           | Inr _ \<Rightarrow> Inl ValueError))"

text \<open>
  \<^verbatim>\<open>e(f, name)\<close>. The base class defines no \<^verbatim>\<open>__call__\<close>, so calling an
  instance of it is a \<^verbatim>\<open>TypeError\<close>.
\<close>

fun call :: "'img lib \<Rightarrow> extractor \<Rightarrow> stream \<Rightarrow> string \<Rightarrow> (error + pyval) \<times> string list" where
  "call L (Extractor n) f name = (Inl TypeError, [])"
| "call L (JSONExtractor n) f name = (JSONExtractor_call L f name, [])"
| "call L (MetadataExtractor n box) f name = MetadataExtractor_call L box f name"
| "call L (BlobExtractor n) f name = (BlobExtractor_call f name, [])"
| "call L (HTMLExtractor n template) f name = (HTMLExtractor_call L template f name, [])"

section \<open>The driver \<^verbatim>\<open>extract\<close>\<close>

text \<open>
  The reader is a collaborator: it yields pairs of a document handle and a name. A
  handle is modelled by the bytes of its document, and \<^verbatim>\<open>nb.open()\<close> gives a new
  stream at position 0 each time.
\<close>

type_synonym handle = bytes

definition hopen :: "handle \<Rightarrow> stream" where
  "hopen nb = \<lparr>content = nb, pos = 0\<rparr>"

text \<open>
  What the outside sees of a run: the printed lines, and the calls \<^verbatim>\<open>e(f, name)\<close>
  made so far, each as the extractor's name and the document's name.
\<close>

record world =
  printed :: "string list"
  calls :: "(string \<times> string) list"

definition world0 :: world where
  "world0 = \<lparr>printed = [], calls = []\<rparr>"

text \<open>
  The inner loop \<^verbatim>\<open>for e in extractors: with nb.open() as f: d[e.name] = e(f, name)\<close>
  on the dict \<open>d\<close>.
\<close>

fun run_extractors ::
  "'img lib \<Rightarrow> extractor list \<Rightarrow> handle \<Rightarrow> string \<Rightarrow> (string \<times> pyval) list \<Rightarrow> world
     \<Rightarrow> (error + (string \<times> pyval) list) \<times> world" where
  "run_extractors L [] nb name d w = (Inr d, w)"
| "run_extractors L (e # es) nb name d w =
     (case call L e (hopen nb) name of
        (r, out) \<Rightarrow>
          (let w' = w\<lparr>printed := printed w @ out, calls := calls w @ [(ename e, name)]\<rparr>
           in case r of
                Inl err \<Rightarrow> (Inl err, w')
              | Inr v \<Rightarrow> run_extractors L es nb name (AList.update (ename e) v d) w'))"

text \<open>
  \<^verbatim>\<open>extract\<close> is a generator function (\<open>extract_gen\<close> here, the plain name
  being a command of Isabelle): calling it runs nothing and returns a generator, here the reader's remaining pairs, the extractors, whether the generator
  has ended, and the world.
\<close>

record gen =
  pending :: "(handle \<times> string) list"
  extractors :: "extractor list"
  finished :: bool
  world :: world

definition extract_gen :: "(handle \<times> string) list \<Rightarrow> extractor list \<Rightarrow> world \<Rightarrow> gen" where
  "extract_gen reader es w = \<lparr>pending = reader, extractors = es, finished = False, world = w\<rparr>"

datatype outcome = Yield pyval | Raise error | StopIteration

text \<open>
  \<^verbatim>\<open>next(g)\<close>: run the body up to the next \<^verbatim>\<open>yield\<close>. An exception that leaves
  the body ends the generator, as does the end of the reader.
\<close>

definition gen_next :: "'img lib \<Rightarrow> gen \<Rightarrow> outcome \<times> gen" where
  "gen_next L g =
     (if finished g then (StopIteration, g)
      else case pending g of
             [] \<Rightarrow> (StopIteration, g\<lparr>finished := True\<rparr>)
           | (nb, name) # rest \<Rightarrow>
               (case run_extractors L (extractors g) nb name [] (world g) of
                  (Inl err, w) \<Rightarrow> (Raise err, g\<lparr>pending := rest, finished := True, world := w\<rparr>)
                | (Inr d, w) \<Rightarrow>
                    (Yield (PDict (AList.update ''name'' (PStr name) d)),
                     g\<lparr>pending := rest, world := w\<rparr>)))"

text \<open>\<open>n\<close> successive requests and their outcomes.\<close>

fun nexts :: "'img lib \<Rightarrow> nat \<Rightarrow> gen \<Rightarrow> outcome list \<times> gen" where
  "nexts L 0 g = ([], g)"
| "nexts L (Suc n) g =
     (case gen_next L g of
        (r, g') \<Rightarrow> (case nexts L n g' of (rs, g'') \<Rightarrow> (r # rs, g'')))"

text \<open>
  \<^verbatim>\<open>list(extract(reader, extractors))\<close>: the records up to the end or to the first
  exception, the exception if there was one, and the generator afterwards.
\<close>

function drain :: "'img lib \<Rightarrow> gen \<Rightarrow> pyval list \<times> error option \<times> gen" where
  "drain L g =
     (case gen_next L g of
        (Yield r, g') \<Rightarrow> (case drain L g' of (rs, e, g'') \<Rightarrow> (r # rs, e, g''))
      | (Raise e, g') \<Rightarrow> ([], Some e, g')
      | (StopIteration, g') \<Rightarrow> ([], None, g'))"
  by pat_completeness auto
termination
  by (relation "measure (\<lambda>(L, g). length (pending g))")
     (auto simp: gen_next_def split: if_splits list.splits prod.splits sum.splits)

section \<open>The image payloads of a document, as the specification lists them\<close>

text \<open>
  Cells in order, in each cell its outputs in order, of these the ones whose
  \<^verbatim>\<open>output_type\<close> is \<^verbatim>\<open>display_data\<close>, in each the entries of \<^verbatim>\<open>data\<close> whose
  key is an image type, and for each entry its payloads, a single value counting as
  the sequence of that one value.
\<close>

definition outputs_of :: "pyval \<Rightarrow> pyval list" where
  "outputs_of cell =
     (case py_get cell ''outputs'' (PList []) of
        Inl _ \<Rightarrow> []
      | Inr os \<Rightarrow> (case py_iter os of Inl _ \<Rightarrow> [] | Inr outs \<Rightarrow> outs))"

definition is_display_data :: "pyval \<Rightarrow> bool" where
  "is_display_data out = (py_get out ''output_type'' PNone = Inr (PStr ''display_data''))"

definition data_items :: "pyval \<Rightarrow> (string \<times> pyval) list" where
  "data_items out =
     (case py_get out ''data'' (PDict []) of Inr (PDict kvs) \<Rightarrow> kvs | _ \<Rightarrow> [])"

definition item_payloads :: "(string \<times> pyval) list \<Rightarrow> (string \<times> pyval) list" where
  "item_payloads items =
     concat (map (\<lambda>(key, data). if image_key key then map (Pair key) (as_list data) else []) items)"

definition output_payloads :: "pyval list \<Rightarrow> (string \<times> pyval) list" where
  "output_payloads outs =
     concat (map (\<lambda>out. item_payloads (data_items out)) (filter is_display_data outs))"

definition candidates :: "pyval list \<Rightarrow> (string \<times> pyval) list" where
  "candidates cells = concat (map (\<lambda>cell. output_payloads (outputs_of cell)) cells)"

text \<open>Handling the candidates one after the other, stopping at the first exception.\<close>

fun for_flat :: "'img lib \<Rightarrow> pyval \<Rightarrow> (string \<times> pyval) list \<Rightarrow> st \<Rightarrow> error option \<times> st" where
  "for_flat L box [] s = (None, s)"
| "for_flat L box ((key, d) # rest) s =
     (case payload_step L box key d s of
        (Some e, s') \<Rightarrow> (Some e, s')
      | (None, s') \<Rightarrow> for_flat L box rest s')"

text \<open>
  The shape the loops need to get through a document: every cell and every output is
  a mapping, the outputs of a cell can be iterated, and the \<^verbatim>\<open>data\<close> of a
  \<^verbatim>\<open>display_data\<close> output is a mapping.
\<close>

definition wf_output :: "pyval \<Rightarrow> bool" where
  "wf_output out =
     (case out of
        PDict kvs \<Rightarrow>
          (if map_of kvs ''output_type'' = Some (PStr ''display_data'')
           then (case map_of kvs ''data'' of None \<Rightarrow> True | Some (PDict _) \<Rightarrow> True | Some _ \<Rightarrow> False)
           else True)
      | _ \<Rightarrow> False)"

definition wf_cell :: "pyval \<Rightarrow> bool" where
  "wf_cell cell =
     (case cell of
        PDict kvs \<Rightarrow>
          (case map_of kvs ''outputs'' of
             None \<Rightarrow> True
           | Some os \<Rightarrow> (case py_iter os of Inl _ \<Rightarrow> False | Inr outs \<Rightarrow> list_all wf_output outs))
      | _ \<Rightarrow> False)"

text \<open>
  The calls made for the documents of a list, in order, and the record of one
  document apart from the effects of producing it.
\<close>

definition doc_calls :: "extractor list \<Rightarrow> (handle \<times> string) list \<Rightarrow> (string \<times> string) list" where
  "doc_calls es reader = concat (map (\<lambda>(nb, nm). map (\<lambda>e. (ename e, nm)) es) reader)"

definition record_of :: "'img lib \<Rightarrow> extractor list \<Rightarrow> handle \<times> string \<Rightarrow> error + pyval" where
  "record_of L es p =
     (case fst (run_extractors L es (fst p) (snd p) [] world0) of
        Inl err \<Rightarrow> Inl err
      | Inr d \<Rightarrow> Inr (PDict (AList.update ''name'' (PStr (snd p)) d)))"

text \<open>
  The PNG bytes of the thumbnail of a payload, when decoding, resizing and saving all
  return.
\<close>

definition thumbnail_png :: "'img lib \<Rightarrow> pyval \<Rightarrow> pyval \<Rightarrow> bytes option" where
  "thumbnail_png L box d =
     (case b64decode L d of
        Inl _ \<Rightarrow> None
      | Inr bs \<Rightarrow>
          (case image_open L bs of
             Inl _ \<Rightarrow> None
           | Inr t \<Rightarrow>
               (case thumbnail L box t of
                  Inl _ \<Rightarrow> None
                | Inr t' \<Rightarrow> (case save_png L t' of Inl _ \<Rightarrow> None | Inr png \<Rightarrow> Some png))))"

section \<open>The size of a thumbnail, as the specification describes it\<close>




section \<open>A stand-in for the collaborators\<close>

text \<open>
  A table-driven library and six documents, on which the model can be run: images
  are a width and a height, \<^verbatim>\<open>QUJD\<close> and \<^verbatim>\<open>REVG\<close> are the base64 texts of two
  images, \<^verbatim>\<open>abc\<close> is base64 with wrong padding (\<^verbatim>\<open>binascii.Error\<close>, a
  \<^verbatim>\<open>ValueError\<close>), and bytes outside the table are not JSON.
\<close>

definition sample_meta :: "(string \<times> pyval) list" where
  "sample_meta = [(''thumbs'', PStr ''old''), (''title'', PStr ''t'')]"

definition sample_cells :: "pyval list" where
  "sample_cells =
     [PDict [(''outputs'', PList
        [PDict [(''output_type'', PStr ''stream'')],
         PDict [(''output_type'', PStr ''display_data''),
                (''data'', PDict [(''text/plain'', PStr ''x''),
                                  (''Image/PNG'', PStr ''QUJD''),
                                  (''image/jpeg'', PList [PStr ''REVG''])])]])],
      PDict [(''cell_type'', PStr ''markdown'')]]"

definition corrupt_cells :: "pyval list" where
  "corrupt_cells =
     [PDict [(''outputs'', PList
        [PDict [(''output_type'', PStr ''display_data''),
                (''data'', PDict [(''image/jpeg'', PStr ''abc'')])]])],
      PDict [(''outputs'', PList
        [PDict [(''output_type'', PStr ''display_data''),
                (''data'', PDict [(''image/png'', PStr ''QUJD'')])]])]]"

definition sample_docs :: "(bytes \<times> pyval) list" where
  "sample_docs =
     [([1], PDict [(''metadata'', PDict sample_meta), (''cells'', PList [])]),
      ([2], PDict [(''metadata'', PDict sample_meta), (''cells'', PList sample_cells)]),
      ([3], PDict [(''cells'', PList corrupt_cells)]),
      ([4], PDict [(''metadata'', PDict sample_meta)]),
      ([5], PDict [(''metadata'', PNone)]),
      ([6], PList [])]"

definition sample_lib :: "(nat \<times> nat) lib" where
  "sample_lib =
     \<lparr>json_loads = (\<lambda>bs. case map_of sample_docs bs of None \<Rightarrow> Inl ValueError | Some v \<Rightarrow> Inr v),
      b64decode = (\<lambda>d. case d of
                          PStr s \<Rightarrow> (if s = ''QUJD'' then Inr [65, 66, 67]
                                     else if s = ''REVG'' then Inr [68, 69, 70]
                                     else Inl ValueError)
                        | _ \<Rightarrow> Inl TypeError),
      image_open = (\<lambda>bs. if bs = [65, 66, 67] then Inr (400, 300)
                          else if bs = [68, 69, 70] then Inr (100, 50)
                          else Inl OSError),
      thumbnail = (\<lambda>box t. case box of
                          PTuple [PInt w, PInt h] \<Rightarrow>
                            (if int (fst t) \<le> w \<and> int (snd t) \<le> h then Inr t
                             else if t = (400, 300) \<and> w = 200 \<and> h = 200 then Inr (200, 150)
                             else Inl (OtherError ''unsupported''))
                        | _ \<Rightarrow> Inl TypeError),
      save_png = (\<lambda>t. Inr [of_nat (fst t), of_nat (snd t)]),
      b64encode = (\<lambda>bs. if bs = [200, 150] then ''yJY=''
                         else if bs = [100, 50] then ''ZDI='' else ''''),
      from_file = (\<lambda>template bs resources. Inr (PTuple [PStr ''<p/>'', PDict []]))\<rparr>"

section \<open>The loops visit the candidates in order\<close>

lemma for_flat_append:
  "for_flat L box (xs @ ys) s =
     (case for_flat L box xs s of (Some e, s') \<Rightarrow> (Some e, s') | (None, s') \<Rightarrow> for_flat L box ys s')"
  by (induction xs arbitrary: s) (auto split: prod.splits option.splits)

lemma for_payloads_flat:
  "for_payloads L box key ds s = for_flat L box (map (Pair key) ds) s"
  by (induction ds arbitrary: s) (auto split: prod.splits option.splits)

lemma for_items_flat:
  "for_items L box items s = for_flat L box (item_payloads items) s"
  by (induction items arbitrary: s)
     (auto simp: item_payloads_def for_flat_append for_payloads_flat split: prod.splits option.splits)

lemma item_payloads_Nil [simp]: "item_payloads [] = []"
  by (simp add: item_payloads_def)

lemma wf_output_simps:
  "wf_output (PDict kvs) =
     (map_of kvs ''output_type'' = Some (PStr ''display_data'') \<longrightarrow>
        map_of kvs ''data'' = None \<or> (\<exists>m. map_of kvs ''data'' = Some (PDict m)))"
  "wf_output PNone = False" "wf_output (PBool b) = False" "wf_output (PInt i) = False"
  "wf_output (PFloat w) = False" "wf_output (PStr x) = False" "wf_output (PBytes bs) = False"
  "wf_output (PList xs) = False" "wf_output (PTuple xs) = False"
  by (auto simp: wf_output_def split: option.splits pyval.splits)

lemma wf_cell_simps:
  "wf_cell (PDict kvs) =
     (\<exists>outs. py_iter (case map_of kvs ''outputs'' of None \<Rightarrow> PList [] | Some v \<Rightarrow> v) = Inr outs
             \<and> list_all wf_output outs)"
  "wf_cell PNone = False" "wf_cell (PBool b) = False" "wf_cell (PInt i) = False"
  "wf_cell (PFloat w) = False" "wf_cell (PStr x) = False" "wf_cell (PBytes bs) = False"
  "wf_cell (PList xs) = False" "wf_cell (PTuple xs) = False"
  by (auto simp: wf_cell_def split: option.splits sum.splits)

lemma for_outputs_flat:
  "list_all wf_output outs \<Longrightarrow>
   for_outputs L box outs s = for_flat L box (output_payloads outs) s"
proof (induction outs arbitrary: s)
  case Nil
  then show ?case by (simp add: output_payloads_def)
next
  case (Cons out outs)
  from Cons.prems obtain kvs where out: "out = PDict kvs" and rest: "list_all wf_output outs"
    by (cases out) (auto simp: wf_output_simps)
  note IH = Cons.IH [OF rest]
  show ?case
  proof (cases "is_display_data out")
    case True
    with out have ty: "map_of kvs ''output_type'' = Some (PStr ''display_data'')"
      by (auto simp: is_display_data_def split: option.splits)
    with Cons.prems out obtain items where
      dat: "py_get out ''data'' (PDict []) = Inr (PDict items)" and di: "data_items out = items"
      by (auto simp: wf_output_simps data_items_def)
    have step: "for_outputs L box (out # outs) s =
        (case for_items L box items s of
           (Some e, s') \<Rightarrow> (Some e, s') | (None, s') \<Rightarrow> for_outputs L box outs s')"
      using ty dat unfolding out by simp
    have pl: "output_payloads (out # outs) = item_payloads items @ output_payloads outs"
      using True di by (simp add: output_payloads_def)
    show ?thesis
      unfolding step pl for_flat_append for_items_flat IH ..
  next
    case False
    with out have "(case map_of kvs ''output_type'' of None \<Rightarrow> PNone | Some v \<Rightarrow> v) \<noteq> PStr ''display_data''"
      by (simp add: is_display_data_def)
    then have step: "for_outputs L box (out # outs) s = for_outputs L box outs s"
      unfolding out by simp
    have pl: "output_payloads (out # outs) = output_payloads outs"
      using False by (simp add: output_payloads_def)
    show ?thesis
      unfolding step pl IH ..
  qed
qed

lemma for_cells_flat:
  "list_all wf_cell cells \<Longrightarrow> for_cells L box cells s = for_flat L box (candidates cells) s"
proof (induction cells arbitrary: s)
  case Nil
  then show ?case by (simp add: candidates_def)
next
  case (Cons cell cells)
  from Cons.prems obtain kvs where cell: "cell = PDict kvs" and rest: "list_all wf_cell cells"
    by (cases cell) (auto simp: wf_cell_simps)
  from Cons.prems cell obtain outs where
    it: "py_iter (case map_of kvs ''outputs'' of None \<Rightarrow> PList [] | Some v \<Rightarrow> v) = Inr outs"
    and wf: "list_all wf_output outs"
    by (auto simp: wf_cell_simps)
  have oo: "outputs_of cell = outs"
    using cell it by (simp add: outputs_of_def)
  have pl: "candidates (cell # cells) = output_payloads outs @ candidates cells"
    by (simp add: candidates_def oo)
  have step: "for_cells L box (cell # cells) s =
      (case for_outputs L box outs s of
         (Some e, s') \<Rightarrow> (Some e, s') | (None, s') \<Rightarrow> for_cells L box cells s')"
    using it unfolding cell by simp
  show ?case
    unfolding step pl for_flat_append for_outputs_flat [OF wf] Cons.IH [OF rest] ..
qed

lemma py_items_Inr: "py_items v = Inr kvs \<Longrightarrow> v = PDict kvs"
  by (cases v) auto

lemma py_get_Inr: "py_get v k d = Inr x \<Longrightarrow> \<exists>kvs. v = PDict kvs"
  by (cases v) auto

lemma for_outputs_None_wf:
  "for_outputs L box outs s = (None, s') \<Longrightarrow> list_all wf_output outs"
proof (induction outs arbitrary: s)
  case Nil
  then show ?case by simp
next
  case (Cons out outs)
  from Cons.prems obtain kvs where out: "out = PDict kvs"
    by (auto split: sum.splits dest: py_get_Inr)
  from Cons.prems have "wf_output out \<and> (\<exists>s1. for_outputs L box outs s1 = (None, s'))"
    unfolding out
    by (auto simp: wf_output_simps split: if_splits sum.splits prod.splits option.splits
             dest: py_items_Inr)
  with Cons.IH show ?case by auto
qed

lemma for_cells_None_wf:
  "for_cells L box cells s = (None, s') \<Longrightarrow> list_all wf_cell cells"
proof (induction cells arbitrary: s)
  case Nil
  then show ?case by simp
next
  case (Cons cell cells)
  from Cons.prems obtain kvs where cell: "cell = PDict kvs"
    by (auto split: sum.splits dest: py_get_Inr)
  from Cons.prems have "wf_cell cell \<and> (\<exists>s1. for_cells L box cells s1 = (None, s'))"
    unfolding cell
    by (auto simp: wf_cell_simps split: if_splits sum.splits prod.splits option.splits
             dest: for_outputs_None_wf)
  with Cons.IH show ?case by auto
qed

section \<open>The metadata extractor\<close>

lemma not_truthy_not_True: "\<not> truthy v \<Longrightarrow> v \<noteq> PBool True"
  by auto

text \<open>
  C3. With thumbnails disabled (a false value for \<^verbatim>\<open>thumbnails\<close>), on a document
  that parses to a JSON object the metadata extractor returns the value of the
  \<^verbatim>\<open>metadata\<close> field as it is, or an empty mapping when the field is absent, and
  prints nothing.
\<close>

theorem metadata_only_when_disabled:
  assumes "json_loads L (read f) = Inr (PDict kvs)" and "\<not> truthy thumbnails"
  shows "call L (MetadataExtractor_init name thumbnails) f nm =
           (Inr (case map_of kvs ''metadata'' of None \<Rightarrow> PDict [] | Some m \<Rightarrow> m), [])"
  using assms not_truthy_not_True [OF assms(2)]
  by (simp add: MetadataExtractor_init_def MetadataExtractor_call_def JSONExtractor_call_def)

theorem metadata_only_when_disabled_witness:
  "json_loads sample_lib (read (hopen [4])) = Inr (PDict [(''metadata'', PDict sample_meta)])
   \<and> \<not> truthy (PBool False)
   \<and> call sample_lib (MetadataExtractor_init None (PBool False)) (hopen [4]) ''a''
       = (Inr (PDict sample_meta), [])"
  using metadata_only_when_disabled
          [of sample_lib "hopen [4]" "[(''metadata'', PDict sample_meta)]" "PBool False" None "''a''"]
  by (simp add: sample_lib_def sample_docs_def hopen_def read_def)

lemma MetadataExtractor_call_enabled:
  assumes "json_loads L (read f) = Inr (PDict kvs)" and "truthy box"
    and "(case map_of kvs ''metadata'' of None \<Rightarrow> PDict [] | Some v \<Rightarrow> v) = PDict m"
    and "map_of kvs ''cells'' = Some cs" and "py_iter cs = Inr cells"
  shows "MetadataExtractor_call L box f nm =
           (case for_cells L box cells st0 of
              (Some e, s) \<Rightarrow> (Inl e, stdout s)
            | (None, s) \<Rightarrow>
                (Inr (PDict (AList.update ''thumbs'' (PList (map PStr (thumbs s))) m)), stdout s))"
  using assms
  by (simp add: MetadataExtractor_call_def JSONExtractor_call_def split: prod.splits option.splits)

lemma py_setitem_Inr: "py_setitem v k x = Inr r \<Longrightarrow> \<exists>kvs. v = PDict kvs \<and> r = PDict (AList.update k x kvs)"
  by (cases v) auto

lemma py_getitem_Inr: "py_getitem v k = Inr r \<Longrightarrow> \<exists>kvs. v = PDict kvs \<and> map_of kvs k = Some r"
  by (cases v) (auto split: option.splits)

lemma MetadataExtractor_call_Inr:
  assumes "MetadataExtractor_call L box f nm = (Inr r, out)" and "truthy box"
  shows "\<exists>kvs m cs cells s.
           json_loads L (read f) = Inr (PDict kvs)
         \<and> (case map_of kvs ''metadata'' of None \<Rightarrow> PDict [] | Some v \<Rightarrow> v) = PDict m
         \<and> map_of kvs ''cells'' = Some cs \<and> py_iter cs = Inr cells
         \<and> for_cells L box cells st0 = (None, s)
         \<and> r = PDict (AList.update ''thumbs'' (PList (map PStr (thumbs s))) m)
         \<and> out = stdout s"
proof -
  from assms obtain doc where doc: "json_loads L (read f) = Inr doc"
    by (auto simp: MetadataExtractor_call_def JSONExtractor_call_def split: sum.splits)
  from assms doc obtain meta where meta: "py_get doc ''metadata'' (PDict []) = Inr meta"
    by (auto simp: MetadataExtractor_call_def JSONExtractor_call_def split: sum.splits)
  then obtain kvs where kvs: "doc = PDict kvs"
    by (auto dest: py_get_Inr)
  from assms doc meta obtain meta0 where m0: "py_setitem meta ''thumbs'' (PList []) = Inr meta0"
    by (auto simp: MetadataExtractor_call_def JSONExtractor_call_def split: sum.splits)
  then obtain m where m: "meta = PDict m" "meta0 = PDict (AList.update ''thumbs'' (PList []) m)"
    by (auto dest: py_setitem_Inr)
  from assms doc meta m0 obtain cs where cs: "py_getitem doc ''cells'' = Inr cs"
    by (auto simp: MetadataExtractor_call_def JSONExtractor_call_def split: sum.splits)
  from assms doc meta m0 cs obtain cells where cells: "py_iter cs = Inr cells"
    by (auto simp: MetadataExtractor_call_def JSONExtractor_call_def split: sum.splits)
  from assms doc meta m0 cs cells obtain s where
    s: "for_cells L box cells st0 = (None, s)"
       "r = PDict (AList.update ''thumbs'' (PList (map PStr (thumbs s))) m)" "out = stdout s"
    by (auto simp: MetadataExtractor_call_def JSONExtractor_call_def m
             split: sum.splits prod.splits option.splits)
  from meta kvs m have "(case map_of kvs ''metadata'' of None \<Rightarrow> PDict [] | Some v \<Rightarrow> v) = PDict m"
    by simp
  moreover from cs kvs have "map_of kvs ''cells'' = Some cs"
    by (auto split: option.splits)
  ultimately show ?thesis
    using doc kvs cells s by blast
qed

text \<open>
  C9. When thumbnail generation is enabled and the call returns, the result is the
  document's metadata mapping with the key \<^verbatim>\<open>thumbs\<close> set to a new list: the list
  built from the empty list over the document's candidates (so the empty list when
  there is none), whatever \<^verbatim>\<open>thumbs\<close> held in the document. Every other key
  reads as it does in the document's metadata.
\<close>

theorem thumbs_key_overwritten:
  assumes "call L (MetadataExtractor n box) f nm = (Inr r, out)" and "truthy box"
  shows "\<exists>kvs m cs cells s.
           json_loads L (read f) = Inr (PDict kvs)
         \<and> (case map_of kvs ''metadata'' of None \<Rightarrow> PDict [] | Some v \<Rightarrow> v) = PDict m
         \<and> map_of kvs ''cells'' = Some cs \<and> py_iter cs = Inr cells
         \<and> for_flat L box (candidates cells) st0 = (None, s)
         \<and> (candidates cells = [] \<longrightarrow> thumbs s = [])
         \<and> r = PDict (AList.update ''thumbs'' (PList (map PStr (thumbs s))) m)
         \<and> py_getitem r ''thumbs'' = Inr (PList (map PStr (thumbs s)))
         \<and> (\<forall>k. k \<noteq> ''thumbs'' \<longrightarrow> py_getitem r k = py_getitem (PDict m) k)"
proof -
  from assms have "MetadataExtractor_call L box f nm = (Inr r, out)"
    by simp
  from MetadataExtractor_call_Inr [OF this assms(2)] obtain kvs m cs cells s where
    h: "json_loads L (read f) = Inr (PDict kvs)"
       "(case map_of kvs ''metadata'' of None \<Rightarrow> PDict [] | Some v \<Rightarrow> v) = PDict m"
       "map_of kvs ''cells'' = Some cs" "py_iter cs = Inr cells"
       "for_cells L box cells st0 = (None, s)"
       "r = PDict (AList.update ''thumbs'' (PList (map PStr (thumbs s))) m)"
    by blast
  have flat: "for_flat L box (candidates cells) st0 = (None, s)"
    using h(5) unfolding for_cells_flat [OF for_cells_None_wf [OF h(5)]] .
  have empty: "candidates cells = [] \<longrightarrow> thumbs s = []"
    using flat by (auto simp: st0_def)
  have look: "py_getitem r ''thumbs'' = Inr (PList (map PStr (thumbs s)))"
    by (simp add: h(6) AList.update_conv')
  have frame: "\<forall>k. k \<noteq> ''thumbs'' \<longrightarrow> py_getitem r k = py_getitem (PDict m) k"
    by (simp add: h(6) AList.update_conv')
  from h(1-4) flat empty h(6) look frame show ?thesis
    by blast
qed



theorem thumbs_key_overwritten_witness:
  "call sample_lib (MetadataExtractor ''M'' (PTuple [PInt 200, PInt 200])) (hopen [2]) ''a''
     = (Inr (PDict [(''thumbs'', PList [PStr ''data:image/png;base64,yJY='',
                                        PStr ''data:image/png;base64,ZDI='']),
                    (''title'', PStr ''t'')]), [])
   \<and> truthy (PTuple [PInt 200, PInt 200])
   \<and> py_getitem (PDict sample_meta) ''thumbs'' = Inr (PStr ''old'')
   \<and> (\<exists>kvs m cs cells s.
           json_loads sample_lib (read (hopen [2])) = Inr (PDict kvs)
         \<and> (case map_of kvs ''metadata'' of None \<Rightarrow> PDict [] | Some v \<Rightarrow> v) = PDict m
         \<and> map_of kvs ''cells'' = Some cs \<and> py_iter cs = Inr cells
         \<and> for_flat sample_lib (PTuple [PInt 200, PInt 200]) (candidates cells) st0 = (None, s)
         \<and> (candidates cells = [] \<longrightarrow> thumbs s = [])
         \<and> PDict [(''thumbs'', PList [PStr ''data:image/png;base64,yJY='',
                                        PStr ''data:image/png;base64,ZDI='']),
                    (''title'', PStr ''t'')]
             = PDict (AList.update ''thumbs'' (PList (map PStr (thumbs s))) m)
         \<and> py_getitem (PDict [(''thumbs'', PList [PStr ''data:image/png;base64,yJY='',
                                        PStr ''data:image/png;base64,ZDI='']),
                    (''title'', PStr ''t'')]) ''thumbs'' = Inr (PList (map PStr (thumbs s)))
         \<and> (\<forall>k. k \<noteq> ''thumbs'' \<longrightarrow>
                py_getitem (PDict [(''thumbs'', PList [PStr ''data:image/png;base64,yJY='',
                                        PStr ''data:image/png;base64,ZDI='']),
                    (''title'', PStr ''t'')]) k = py_getitem (PDict m) k))"
proof -
  have c: "call sample_lib (MetadataExtractor ''M'' (PTuple [PInt 200, PInt 200])) (hopen [2]) ''a''
     = (Inr (PDict [(''thumbs'', PList [PStr ''data:image/png;base64,yJY='',
                                        PStr ''data:image/png;base64,ZDI='']),
                    (''title'', PStr ''t'')]), [])"
    by code_simp
  have t: "truthy (PTuple [PInt 200, PInt 200])"
    by simp
  have old: "py_getitem (PDict sample_meta) ''thumbs'' = Inr (PStr ''old'')"
    by code_simp
  from thumbs_key_overwritten [OF c t] c t old show ?thesis
    by blast
qed

text \<open>
  C10, as amended. With thumbnails enabled, a document without a \<^verbatim>\<open>cells\<close> key is
  never answered with the metadata: the call raises. The exception is
  \<^verbatim>\<open>KeyError('cells')\<close> when the document is an object whose \<^verbatim>\<open>metadata\<close> is
  absent or a mapping, \<^verbatim>\<open>TypeError\<close> when the \<^verbatim>\<open>metadata\<close> is not a mapping,
  and \<^verbatim>\<open>AttributeError\<close> when the document is not an object. A cell without
  \<^verbatim>\<open>outputs\<close>, an output without \<^verbatim>\<open>output_type\<close> and a \<^verbatim>\<open>display_data\<close>
  output without \<^verbatim>\<open>data\<close> are passed over and leave the thumbnails as they are.
\<close>

theorem missing_cells_raises:
  assumes "json_loads L (read f) = Inr doc" and "truthy box"
    and "\<forall>kvs. doc = PDict kvs \<longrightarrow> map_of kvs ''cells'' = None"
  shows "(\<exists>e. call L (MetadataExtractor n box) f nm = (Inl e, []))
       \<and> (\<forall>kvs. doc = PDict kvs
                 \<and> (map_of kvs ''metadata'' = None \<or> (\<exists>m. map_of kvs ''metadata'' = Some (PDict m)))
              \<longrightarrow> call L (MetadataExtractor n box) f nm = (Inl (KeyError ''cells''), []))
       \<and> (\<forall>kvs v. doc = PDict kvs \<and> map_of kvs ''metadata'' = Some v \<and> (\<forall>m. v \<noteq> PDict m)
              \<longrightarrow> call L (MetadataExtractor n box) f nm = (Inl TypeError, []))
       \<and> ((\<forall>kvs. doc \<noteq> PDict kvs)
              \<longrightarrow> call L (MetadataExtractor n box) f nm = (Inl AttributeError, []))
       \<and> (\<forall>c cells s. map_of c ''outputs'' = None
              \<longrightarrow> for_cells L box (PDict c # cells) s = for_cells L box cells s)
       \<and> (\<forall>out outs s. map_of out ''output_type'' = None
              \<longrightarrow> for_outputs L box (PDict out # outs) s = for_outputs L box outs s)
       \<and> (\<forall>out outs s. map_of out ''output_type'' = Some (PStr ''display_data'')
                        \<and> map_of out ''data'' = None
              \<longrightarrow> for_outputs L box (PDict out # outs) s = for_outputs L box outs s)"
proof -
  have key: "\<forall>kvs. doc = PDict kvs
                 \<and> (map_of kvs ''metadata'' = None \<or> (\<exists>m. map_of kvs ''metadata'' = Some (PDict m)))
              \<longrightarrow> call L (MetadataExtractor n box) f nm = (Inl (KeyError ''cells''), [])"
    using assms by (auto simp: MetadataExtractor_call_def JSONExtractor_call_def)
  have ty: "\<forall>kvs v. doc = PDict kvs \<and> map_of kvs ''metadata'' = Some v \<and> (\<forall>m. v \<noteq> PDict m)
              \<longrightarrow> call L (MetadataExtractor n box) f nm = (Inl TypeError, [])"
  proof (intro allI impI, elim conjE)
    fix kvs v
    assume d: "doc = PDict kvs" and m: "map_of kvs ''metadata'' = Some v" and v: "\<forall>m. v \<noteq> PDict m"
    from v have "py_setitem v ''thumbs'' (PList []) = Inl TypeError"
      by (cases v) simp_all
    with assms(1,2) d m show "call L (MetadataExtractor n box) f nm = (Inl TypeError, [])"
      by (simp add: MetadataExtractor_call_def JSONExtractor_call_def)
  qed
  have at: "(\<forall>kvs. doc \<noteq> PDict kvs)
              \<longrightarrow> call L (MetadataExtractor n box) f nm = (Inl AttributeError, [])"
  proof
    assume "\<forall>kvs. doc \<noteq> PDict kvs"
    then have "py_get doc ''metadata'' (PDict []) = Inl AttributeError"
      by (cases doc) simp_all
    with assms(1) show "call L (MetadataExtractor n box) f nm = (Inl AttributeError, [])"
      by (simp add: MetadataExtractor_call_def JSONExtractor_call_def)
  qed
  have some: "\<exists>e. call L (MetadataExtractor n box) f nm = (Inl e, [])"
  proof (cases doc)
    case (PDict kvs)
    show ?thesis
    proof (cases "map_of kvs ''metadata''")
      case None
      with key PDict show ?thesis by blast
    next
      case (Some v)
      show ?thesis
      proof (cases "\<exists>m. v = PDict m")
        case True
        with key PDict Some show ?thesis by blast
      next
        case False
        with ty PDict Some show ?thesis by blast
      qed
    qed
  qed (use at in auto)
  have dflt: "(\<forall>c cells s. map_of c ''outputs'' = None
              \<longrightarrow> for_cells L box (PDict c # cells) s = for_cells L box cells s)
       \<and> (\<forall>out outs s. map_of out ''output_type'' = None
              \<longrightarrow> for_outputs L box (PDict out # outs) s = for_outputs L box outs s)
       \<and> (\<forall>out outs s. map_of out ''output_type'' = Some (PStr ''display_data'')
                        \<and> map_of out ''data'' = None
              \<longrightarrow> for_outputs L box (PDict out # outs) s = for_outputs L box outs s)"
    by simp
  from some key ty at dflt show ?thesis
    by (intro conjI) (elim conjE, assumption)+
qed

theorem missing_cells_raises_witness:
  "json_loads sample_lib (read (hopen [4])) = Inr (PDict [(''metadata'', PDict sample_meta)])
   \<and> json_loads sample_lib (read (hopen [5])) = Inr (PDict [(''metadata'', PNone)])
   \<and> json_loads sample_lib (read (hopen [6])) = Inr (PList [])
   \<and> truthy (PTuple [PInt 200, PInt 200])
   \<and> map_of [(''metadata'', PDict sample_meta)] ''cells'' = None
   \<and> map_of [(''metadata'', PNone)] ''cells'' = None
   \<and> call sample_lib (MetadataExtractor ''M'' (PTuple [PInt 200, PInt 200])) (hopen [4]) ''a''
        = (Inl (KeyError ''cells''), [])
   \<and> call sample_lib (MetadataExtractor ''M'' (PTuple [PInt 200, PInt 200])) (hopen [5]) ''a''
        = (Inl TypeError, [])
   \<and> call sample_lib (MetadataExtractor ''M'' (PTuple [PInt 200, PInt 200])) (hopen [6]) ''a''
        = (Inl AttributeError, [])
   \<and> for_cells sample_lib (PTuple [PInt 200, PInt 200]) [PDict [(''cell_type'', PStr ''markdown'')]] st0
        = (None, st0)
   \<and> for_outputs sample_lib (PTuple [PInt 200, PInt 200]) [PDict [(''text'', PStr ''x'')]] st0
        = (None, st0)
   \<and> for_outputs sample_lib (PTuple [PInt 200, PInt 200]) [PDict [(''output_type'', PStr ''display_data'')]] st0
        = (None, st0)"
proof -
  have l4: "json_loads sample_lib (read (hopen [4])) = Inr (PDict [(''metadata'', PDict sample_meta)])"
    by code_simp
  have l5: "json_loads sample_lib (read (hopen [5])) = Inr (PDict [(''metadata'', PNone)])"
    by code_simp
  have l6: "json_loads sample_lib (read (hopen [6])) = Inr (PList [])"
    by code_simp
  have t: "truthy (PTuple [PInt 200, PInt 200])"
    by simp
  have c4: "\<forall>kvs. PDict [(''metadata'', PDict sample_meta)] = PDict kvs \<longrightarrow> map_of kvs ''cells'' = None"
    by simp
  have c5: "\<forall>kvs. PDict [(''metadata'', PNone)] = PDict kvs \<longrightarrow> map_of kvs ''cells'' = None"
    by simp
  have c6: "\<forall>kvs. PList [] = PDict kvs \<longrightarrow> map_of kvs ''cells'' = None"
    by simp
  from missing_cells_raises [OF l4 t c4, of "''M''" "''a''"]
       missing_cells_raises [OF l5 t c5, of "''M''" "''a''"]
       missing_cells_raises [OF l6 t c6, of "''M''" "''a''"] l4 l5 l6 t
  show ?thesis
    by simp
qed

text \<open>
  C10 as stated fails: the document \<^verbatim>\<open>{"metadata": null}\<close> is well-formed JSON
  without \<^verbatim>\<open>cells\<close>, and the assignment \<^verbatim>\<open>meta['thumbs'] = []\<close> raises
  \<^verbatim>\<open>TypeError\<close> before \<^verbatim>\<open>nb['cells']\<close> is reached.
\<close>

theorem missing_cells_other_error:
  "json_loads sample_lib (read (hopen [5])) = Inr (PDict [(''metadata'', PNone)])
   \<and> map_of [(''metadata'', PNone)] ''cells'' = None
   \<and> call sample_lib (MetadataExtractor_init None (PBool True)) (hopen [5]) ''a'' = (Inl TypeError, [])
   \<and> call sample_lib (MetadataExtractor_init None (PBool True)) (hopen [5]) ''a''
        \<noteq> (Inl (KeyError ''cells''), [])"
  by code_simp

lemma payload_step_ok:
  "thumbnail_png L box d = Some png \<Longrightarrow>
   payload_step L box key d s = (None, s\<lparr>thumbs := thumbs s @ [data_uri (b64encode L png)]\<rparr>)"
  by (auto simp: thumbnail_png_def payload_step_def try_open_def make_thumb_def split: sum.splits)

lemma for_flat_all_ok:
  "list_all2 (\<lambda>c png. thumbnail_png L box (snd c) = Some png) cands pngs \<Longrightarrow>
   for_flat L box cands s =
     (None, s\<lparr>thumbs := thumbs s @ map (\<lambda>png. data_uri (b64encode L png)) pngs\<rparr>)"
proof (induction cands pngs arbitrary: s rule: list_all2_induct)
  case Nil
  then show ?case by simp
next
  case (Cons c cands png pngs)
  obtain key d where c: "c = (key, d)" by (cases c)
  from Cons.hyps(1) c have
    "payload_step L box key d s = (None, s\<lparr>thumbs := thumbs s @ [data_uri (b64encode L png)]\<rparr>)"
    by (simp add: payload_step_ok)
  then show ?case
    by (simp add: c Cons.IH)
qed

lemma MetadataExtractor_call_flat:
  assumes "json_loads L (read f) = Inr (PDict kvs)" and "truthy box"
    and "(case map_of kvs ''metadata'' of None \<Rightarrow> PDict [] | Some v \<Rightarrow> v) = PDict m"
    and "map_of kvs ''cells'' = Some cs" and "py_iter cs = Inr cells"
    and "list_all wf_cell cells"
  shows "MetadataExtractor_call L box f nm =
           (case for_flat L box (candidates cells) st0 of
              (Some e, s) \<Rightarrow> (Inl e, stdout s)
            | (None, s) \<Rightarrow>
                (Inr (PDict (AList.update ''thumbs'' (PList (map PStr (thumbs s))) m)), stdout s))"
  using MetadataExtractor_call_enabled [OF assms(1-5)] unfolding for_cells_flat [OF assms(6)] .






section \<open>Thumbnails fit the box\<close>









section \<open>Exceptions of the decoding\<close>

text \<open>
  What the \<^verbatim>\<open>except\<close> clause does catch: on a \<^verbatim>\<open>RuntimeError\<close> the message is
  printed and the loop goes on with the next payload.
\<close>

lemma runtime_error_is_skipped:
  "try_open L d = Inl RuntimeError \<Longrightarrow>
   for_payloads L box key (d # ds) s =
     for_payloads L box key ds (s\<lparr>stdout := stdout s @ [cant_decode key]\<rparr>)"
  by (simp add: payload_step_def)

text \<open>
  C1, what the code does. The \<^verbatim>\<open>except\<close> clause names \<^verbatim>\<open>RuntimeError\<close> only.
  When a payload's decoding raises any other exception (\<^verbatim>\<open>binascii.Error\<close> for
  corrupt base64, \<^verbatim>\<open>PIL.UnidentifiedImageError\<close> for bytes that are no image),
  the exception leaves the call: the payloads after it are not visited and no
  \<^verbatim>\<open>thumbs\<close> list is returned.
\<close>

theorem decode_error_propagates:
  assumes "json_loads L (read f) = Inr (PDict kvs)" and "truthy box"
    and "(case map_of kvs ''metadata'' of None \<Rightarrow> PDict [] | Some v \<Rightarrow> v) = PDict m"
    and "map_of kvs ''cells'' = Some cs" and "py_iter cs = Inr cells"
    and "list_all wf_cell cells"
    and "candidates cells = before @ (key, d) # rest"
    and "list_all2 (\<lambda>c png. thumbnail_png L box (snd c) = Some png) before pngs"
    and "try_open L d = Inl e" and "e \<noteq> RuntimeError"
  shows "call L (MetadataExtractor n box) f nm = (Inl e, [])"
proof -
  have "payload_step L box key d s = (Some e, s)" for s
    using assms(9,10) by (simp add: payload_step_def)
  then have flat: "for_flat L box (candidates cells) st0 =
      (Some e, \<lparr>thumbs = map (\<lambda>png. data_uri (b64encode L png)) pngs, stdout = []\<rparr>)"
    unfolding assms(7) for_flat_append for_flat_all_ok [OF assms(8)] by (simp add: st0_def)
  show ?thesis
    using MetadataExtractor_call_flat [OF assms(1-6), of nm] unfolding flat by simp
qed

theorem decode_error_propagates_witness:
  "json_loads sample_lib (read (hopen [3])) = Inr (PDict [(''cells'', PList corrupt_cells)])
   \<and> truthy (PTuple [PInt 200, PInt 200])
   \<and> list_all wf_cell corrupt_cells
   \<and> candidates corrupt_cells = [] @ (''image/jpeg'', PStr ''abc'') # [(''image/png'', PStr ''QUJD'')]
   \<and> try_open sample_lib (PStr ''abc'') = Inl ValueError
   \<and> ValueError \<noteq> RuntimeError
   \<and> thumbnail_png sample_lib (PTuple [PInt 200, PInt 200]) (PStr ''QUJD'') = Some [200, 150]
   \<and> call sample_lib (MetadataExtractor ''M'' (PTuple [PInt 200, PInt 200])) (hopen [3]) ''a''
        = (Inl ValueError, [])"
proof -
  have l: "json_loads sample_lib (read (hopen [3])) = Inr (PDict [(''cells'', PList corrupt_cells)])"
    by code_simp
  have t: "truthy (PTuple [PInt 200, PInt 200])"
    by simp
  have m: "(case map_of [(''cells'', PList corrupt_cells)] ''metadata'' of
              None \<Rightarrow> PDict [] | Some v \<Rightarrow> v) = PDict []"
    by simp
  have c: "map_of [(''cells'', PList corrupt_cells)] ''cells'' = Some (PList corrupt_cells)"
    by simp
  have i: "py_iter (PList corrupt_cells) = Inr corrupt_cells"
    by simp
  have w: "list_all wf_cell corrupt_cells"
    by code_simp
  have k: "candidates corrupt_cells
             = [] @ (''image/jpeg'', PStr ''abc'') # [(''image/png'', PStr ''QUJD'')]"
    by code_simp
  have b: "list_all2 (\<lambda>c png. thumbnail_png sample_lib (PTuple [PInt 200, PInt 200]) (snd c) = Some png) [] []"
    by simp
  have o: "try_open sample_lib (PStr ''abc'') = Inl ValueError"
    by code_simp
  have d: "ValueError \<noteq> RuntimeError"
    by simp
  have v: "thumbnail_png sample_lib (PTuple [PInt 200, PInt 200]) (PStr ''QUJD'') = Some [200, 150]"
    by code_simp
  from decode_error_propagates [OF l t m c i w k b o d, of "''M''" "''a''"] l t w k o d v
  show ?thesis
    by blast
qed

section \<open>The driver\<close>

lemma run_extractors_ok:
  "\<forall>e \<in> set es. \<exists>v out. call L e (hopen nb) nm = (Inr v, out) \<Longrightarrow>
   \<exists>d' w'. run_extractors L es nb nm d w = (Inr d', w')
          \<and> calls w' = calls w @ map (\<lambda>e. (ename e, nm)) es"
proof (induction es arbitrary: d w)
  case Nil
  then show ?case by simp
next
  case (Cons e es)
  from Cons.prems obtain v out where c: "call L e (hopen nb) nm = (Inr v, out)"
    by auto
  from Cons.prems have rest: "\<forall>e \<in> set es. \<exists>v out. call L e (hopen nb) nm = (Inr v, out)"
    by simp
  from Cons.IH [OF rest, of "AList.update (ename e) v d"
                  "w\<lparr>printed := printed w @ out, calls := calls w @ [(ename e, nm)]\<rparr>"]
  show ?case
    by (auto simp: c)
qed

lemma run_extractors_other_key:
  "run_extractors L es nb nm d w = (Inr d', w') \<Longrightarrow> k \<notin> ename ` set es \<Longrightarrow>
   map_of d' k = map_of d k"
proof (induction es arbitrary: d w)
  case Nil
  then show ?case by simp
next
  case (Cons e es)
  obtain r out where c: "call L e (hopen nb) nm = (r, out)"
    by (cases "call L e (hopen nb) nm")
  with Cons.prems obtain v where v: "r = Inr v"
    by (cases r) auto
  from Cons.prems c v have
    "run_extractors L es nb nm (AList.update (ename e) v d)
       (w\<lparr>printed := printed w @ out, calls := calls w @ [(ename e, nm)]\<rparr>) = (Inr d', w')"
    by simp
  from Cons.IH [OF this] Cons.prems(2) show ?case
    by (simp add: AList.update_conv')
qed

lemma run_extractors_keys:
  "run_extractors L es nb nm d w = (Inr d', w') \<Longrightarrow>
   fst ` set d' = fst ` set d \<union> ename ` set es"
proof (induction es arbitrary: d w)
  case Nil
  then show ?case by simp
next
  case (Cons e es)
  obtain r out where c: "call L e (hopen nb) nm = (r, out)"
    by (cases "call L e (hopen nb) nm")
  with Cons.prems obtain v where v: "r = Inr v"
    by (cases r) auto
  from Cons.prems c v have
    "run_extractors L es nb nm (AList.update (ename e) v d)
       (w\<lparr>printed := printed w @ out, calls := calls w @ [(ename e, nm)]\<rparr>) = (Inr d', w')"
    by simp
  from Cons.IH [OF this] show ?case
    by (auto simp: AList.dom_update)
qed

lemma run_extractors_last_wins:
  "run_extractors L (es1 @ e # es2) nb nm d w = (Inr d', w') \<Longrightarrow>
   ename e \<notin> ename ` set es2 \<Longrightarrow>
   \<exists>v out. call L e (hopen nb) nm = (Inr v, out) \<and> map_of d' (ename e) = Some v"
proof (induction es1 arbitrary: d w)
  case Nil
  obtain r out where c: "call L e (hopen nb) nm = (r, out)"
    by (cases "call L e (hopen nb) nm")
  with Nil.prems obtain v where v: "r = Inr v"
    by (cases r) auto
  from Nil.prems c v have
    "run_extractors L es2 nb nm (AList.update (ename e) v d)
       (w\<lparr>printed := printed w @ out, calls := calls w @ [(ename e, nm)]\<rparr>) = (Inr d', w')"
    by simp
  from run_extractors_other_key [OF this Nil.prems(2)] c v show ?case
    by (simp add: AList.update_conv')
next
  case (Cons x es1)
  obtain r out where c: "call L x (hopen nb) nm = (r, out)"
    by (cases "call L x (hopen nb) nm")
  with Cons.prems obtain v where v: "r = Inr v"
    by (cases r) auto
  from Cons.prems c v have
    "run_extractors L (es1 @ e # es2) nb nm (AList.update (ename x) v d)
       (w\<lparr>printed := printed w @ out, calls := calls w @ [(ename x, nm)]\<rparr>) = (Inr d', w')"
    by simp
  from Cons.IH [OF this Cons.prems(2)] show ?case .
qed

lemma run_extractors_fail:
  "\<forall>e' \<in> set es1. \<exists>v out. call L e' (hopen nb) nm = (Inr v, out) \<Longrightarrow>
   call L e (hopen nb) nm = (Inl err, out) \<Longrightarrow>
   \<exists>w'. run_extractors L (es1 @ e # es2) nb nm d w = (Inl err, w')
       \<and> calls w' = calls w @ map (\<lambda>e. (ename e, nm)) (es1 @ [e])"
proof (induction es1 arbitrary: d w)
  case Nil
  then show ?case by simp
next
  case (Cons x es1)
  from Cons.prems obtain v o' where c: "call L x (hopen nb) nm = (Inr v, o')"
    by auto
  from Cons.prems have rest: "\<forall>e' \<in> set es1. \<exists>v out. call L e' (hopen nb) nm = (Inr v, out)"
    by simp
  from Cons.IH [OF rest Cons.prems(2), of "AList.update (ename x) v d"
                  "w\<lparr>printed := printed w @ o', calls := calls w @ [(ename x, nm)]\<rparr>"]
  show ?case
    by (auto simp: c)
qed

lemma gen_next_yield:
  assumes "\<not> finished g" and "pending g = (nb, nm) # rest"
    and "run_extractors L (extractors g) nb nm [] (world g) = (Inr d, w')"
  shows "gen_next L g =
           (Yield (PDict (AList.update ''name'' (PStr nm) d)), g\<lparr>pending := rest, world := w'\<rparr>)"
  using assms by (simp add: gen_next_def)

lemma gen_next_raise:
  assumes "\<not> finished g" and "pending g = (nb, nm) # rest"
    and "run_extractors L (extractors g) nb nm [] (world g) = (Inl err, w')"
  shows "gen_next L g = (Raise err, g\<lparr>pending := rest, finished := True, world := w'\<rparr>)"
  using assms by (simp add: gen_next_def)

lemma gen_next_finished: "finished g \<Longrightarrow> gen_next L g = (StopIteration, g)"
  by (simp add: gen_next_def)


lemma run_extractors_world:
  "fst (run_extractors L es nb nm d w) = fst (run_extractors L es nb nm d w2)"
proof (induction es arbitrary: d w w2)
  case Nil
  show ?case by simp
next
  case (Cons e es)
  obtain r out where c: "call L e (hopen nb) nm = (r, out)"
    by (cases "call L e (hopen nb) nm")
  show ?case
  proof (cases r)
    case (Inl err)
    with c show ?thesis by simp
  next
    case (Inr v)
    with c Cons.IH show ?thesis by simp
  qed
qed

lemma record_of_Inr:
  "run_extractors L es nb nm [] w = (Inr d, w') \<Longrightarrow>
   record_of L es (nb, nm) = Inr (PDict (AList.update ''name'' (PStr nm) d))"
  using run_extractors_world [of L es nb nm "[]" world0 w] by (simp add: record_of_def)

lemma record_of_Inl:
  "run_extractors L es nb nm [] w = (Inl err, w') \<Longrightarrow> record_of L es (nb, nm) = Inl err"
  using run_extractors_world [of L es nb nm "[]" world0 w] by (simp add: record_of_def)

lemma nexts_ok:
  "\<not> finished g \<Longrightarrow> pending g = before @ rest \<Longrightarrow>
   \<forall>(nb, nm) \<in> set before. \<forall>e \<in> set (extractors g). \<exists>v out. call L e (hopen nb) nm = (Inr v, out) \<Longrightarrow>
   \<exists>rs g'. nexts L (length before) g = (map Yield rs, g') \<and> length rs = length before
          \<and> \<not> finished g' \<and> pending g' = rest \<and> extractors g' = extractors g
          \<and> calls (world g') = calls (world g) @ doc_calls (extractors g) before
          \<and> map (record_of L (extractors g)) before = map Inr rs"
proof (induction before arbitrary: g)
  case Nil
  then show ?case by (simp add: doc_calls_def)
next
  case (Cons p before)
  obtain nb nm where p: "p = (nb, nm)" by (cases p)
  from Cons.prems(3) p have "\<forall>e \<in> set (extractors g). \<exists>v out. call L e (hopen nb) nm = (Inr v, out)"
    by auto
  from run_extractors_ok [OF this, of "[]" "world g"] obtain d w' where
    run: "run_extractors L (extractors g) nb nm [] (world g) = (Inr d, w')"
    and cw: "calls w' = calls (world g) @ map (\<lambda>e. (ename e, nm)) (extractors g)"
    by blast
  let ?g1 = "g\<lparr>pending := before @ rest, world := w'\<rparr>"
  let ?r = "PDict (AList.update ''name'' (PStr nm) d)"
  have step: "gen_next L g = (Yield ?r, ?g1)"
    using gen_next_yield [OF Cons.prems(1) _ run, of "before @ rest"] Cons.prems(2) p by simp
  have "\<not> finished ?g1" "pending ?g1 = before @ rest"
    using Cons.prems(1) by simp_all
  moreover have "\<forall>(nb, nm) \<in> set before. \<forall>e \<in> set (extractors ?g1).
                   \<exists>v out. call L e (hopen nb) nm = (Inr v, out)"
    using Cons.prems(3) by simp
  ultimately obtain rs g' where
    ih: "nexts L (length before) ?g1 = (map Yield rs, g')" "length rs = length before"
        "\<not> finished g'" "pending g' = rest" "extractors g' = extractors ?g1"
        "calls (world g') = calls (world ?g1) @ doc_calls (extractors ?g1) before"
        "map (record_of L (extractors ?g1)) before = map Inr rs"
    using Cons.IH [of ?g1] by blast
  have a: "nexts L (length (p # before)) g = (map Yield (?r # rs), g')"
    using step ih(1) by simp
  have b: "calls (world g') = calls (world g) @ doc_calls (extractors g) (p # before)"
    using ih(6) cw by (simp add: doc_calls_def p)
  have c: "map (record_of L (extractors g)) (p # before) = map Inr (?r # rs)"
    using ih(7) record_of_Inr [OF run] by (simp add: p)
  from a b c ih(2-5) show ?case
    by (intro exI [of _ "?r # rs"] exI [of _ g']) simp
qed

lemma drain_after_yields:
  "nexts L (length rs) g = (map Yield rs, g') \<Longrightarrow>
   drain L g = (case drain L g' of (rs', e, g'') \<Rightarrow> (rs @ rs', e, g''))"
proof (induction rs arbitrary: g)
  case Nil
  then show ?case by (simp split: prod.splits)
next
  case (Cons r rs)
  obtain o1 g1 where n1: "gen_next L g = (o1, g1)"
    by (cases "gen_next L g")
  obtain os g2 where n2: "nexts L (length rs) g1 = (os, g2)"
    by (cases "nexts L (length rs) g1")
  from Cons.prems n1 n2 have eq: "o1 = Yield r" "os = map Yield rs" "g2 = g'"
    by simp_all
  from Cons.IH [of g1] n2 eq have
    "drain L g1 = (case drain L g' of (rs', e, g'') \<Rightarrow> (rs @ rs', e, g''))"
    by simp
  then show ?case
    by (subst drain.simps) (simp add: n1 eq split: prod.splits)
qed

lemma drain_exhausted:
  "\<not> finished g \<Longrightarrow> pending g = [] \<Longrightarrow> drain L g = ([], None, g\<lparr>finished := True\<rparr>)"
  by (subst drain.simps) (simp add: gen_next_def)

lemma nexts_add:
  "nexts L (m + n) g =
     (case nexts L m g of (rs, g') \<Rightarrow> (case nexts L n g' of (rs', g'') \<Rightarrow> (rs @ rs', g'')))"
proof (induction m arbitrary: g)
  case 0
  show ?case by (simp split: prod.splits)
next
  case (Suc m)
  obtain r g1 where a: "gen_next L g = (r, g1)"
    by (cases "gen_next L g")
  show ?case
    by (simp add: a Suc.IH [of g1] split: prod.splits)
qed

lemma nexts_then_one:
  "nexts L n g = (rs, g') \<Longrightarrow> gen_next L g' = (r, g'') \<Longrightarrow>
   nexts L (Suc n) g = (rs @ [r], g'')"
  using nexts_add [of L n 1 g] by simp


lemma call_Inl_or_Inr:
  "(\<exists>err out. call L e f nm = (Inl err, out)) \<or> (\<exists>v out. call L e f nm = (Inr v, out))"
  by (cases "call L e f nm", cases "fst (call L e f nm)") auto

lemma record_of_lookup:
  assumes "record_of L es (nb, nm) = Inr r"
  shows "\<exists>d. r = PDict d
           \<and> map_of d ''name'' = Some (PStr nm)
           \<and> fst ` set d = insert ''name'' (ename ` set es)
           \<and> (\<forall>j < length es. ename (es ! j) \<noteq> ''name''
                    \<and> ename (es ! j) \<notin> ename ` set (drop (Suc j) es) \<longrightarrow>
                 (\<exists>v out. call L (es ! j) \<lparr>content = nb, pos = 0\<rparr> nm = (Inr v, out)
                        \<and> map_of d (ename (es ! j)) = Some v))"
proof -
  obtain x w' where run: "run_extractors L es nb nm [] world0 = (x, w')"
    by (cases "run_extractors L es nb nm [] world0")
  with assms obtain d0 where x: "x = Inr d0" and r: "r = PDict (AList.update ''name'' (PStr nm) d0)"
    by (cases x) (auto simp: record_of_def)
  let ?d = "AList.update ''name'' (PStr nm) d0"
  note run' = run [unfolded x]
  have nm: "map_of ?d ''name'' = Some (PStr nm)"
    by (simp add: AList.update_conv')
  have keys: "fst ` set ?d = insert ''name'' (ename ` set es)"
    using run_extractors_keys [OF run'] by (simp add: AList.dom_update)
  have look: "\<forall>j < length es. ename (es ! j) \<noteq> ''name''
                    \<and> ename (es ! j) \<notin> ename ` set (drop (Suc j) es) \<longrightarrow>
                 (\<exists>v out. call L (es ! j) \<lparr>content = nb, pos = 0\<rparr> nm = (Inr v, out)
                        \<and> map_of ?d (ename (es ! j)) = Some v)"
  proof (intro allI impI)
    fix j assume j: "j < length es"
      and c: "ename (es ! j) \<noteq> ''name'' \<and> ename (es ! j) \<notin> ename ` set (drop (Suc j) es)"
    have "run_extractors L (take j es @ es ! j # drop (Suc j) es) nb nm [] world0 = (Inr d0, w')"
      using run' id_take_nth_drop [OF j] by simp
    from run_extractors_last_wins [OF this] c obtain v out where
      "call L (es ! j) (hopen nb) nm = (Inr v, out)" "map_of d0 (ename (es ! j)) = Some v"
      by blast
    with c show "\<exists>v out. call L (es ! j) \<lparr>content = nb, pos = 0\<rparr> nm = (Inr v, out)
                        \<and> map_of ?d (ename (es ! j)) = Some v"
      by (auto simp: AList.update_conv' hopen_def)
  qed
  from r nm keys look show ?thesis by blast
qed

text \<open>
  C2. When no extractor raises on any document of the reader, the driver yields one
  record per pair, in the reader's order, and then ends. The record of a pair holds
  the document's name under \<^verbatim>\<open>name\<close>, whatever the extractors are called; its
  keys are the extractors' names and \<^verbatim>\<open>name\<close>; and under the name of each
  extractor (other than \<^verbatim>\<open>name\<close>, and not reused by a later extractor, which
  would overwrite it) it holds the result of calling that extractor on a stream that
  starts at position 0 of the document.
\<close>

theorem extract_records:
  assumes "\<forall>(nb, nm) \<in> set reader. \<forall>e \<in> set es. \<exists>v out. call L e (hopen nb) nm = (Inr v, out)"
  shows "\<exists>recs g. drain L (extract_gen reader es w) = (recs, None, g)
           \<and> length recs = length reader
           \<and> (\<forall>i < length reader. \<exists>d. recs ! i = PDict d
                 \<and> map_of d ''name'' = Some (PStr (snd (reader ! i)))
                 \<and> fst ` set d = insert ''name'' (ename ` set es)
                 \<and> (\<forall>j < length es. ename (es ! j) \<noteq> ''name''
                          \<and> ename (es ! j) \<notin> ename ` set (drop (Suc j) es) \<longrightarrow>
                       (\<exists>v out. call L (es ! j) \<lparr>content = fst (reader ! i), pos = 0\<rparr> (snd (reader ! i))
                                  = (Inr v, out)
                              \<and> map_of d (ename (es ! j)) = Some v)))"
proof -
  let ?g = "extract_gen reader es w"
  have g: "\<not> finished ?g" "pending ?g = reader @ []" "extractors ?g = es"
    by (simp_all add: extract_gen_def)
  have ok: "\<forall>(nb, nm) \<in> set reader. \<forall>e \<in> set (extractors ?g).
              \<exists>v out. call L e (hopen nb) nm = (Inr v, out)"
    using assms unfolding g(3) .
  from nexts_ok [OF g(1,2) ok] obtain rs g' where
    n: "nexts L (length reader) ?g = (map Yield rs, g')" "length rs = length reader"
       "\<not> finished g'" "pending g' = []" "map (record_of L es) reader = map Inr rs"
    unfolding g(3) by blast
  have dr: "drain L ?g = (rs, None, g'\<lparr>finished := True\<rparr>)"
    using drain_after_yields [of L rs ?g g'] n(1,2) drain_exhausted [OF n(3,4), of L] by simp
  have each: "\<forall>i < length reader. \<exists>d. rs ! i = PDict d
                 \<and> map_of d ''name'' = Some (PStr (snd (reader ! i)))
                 \<and> fst ` set d = insert ''name'' (ename ` set es)
                 \<and> (\<forall>j < length es. ename (es ! j) \<noteq> ''name''
                          \<and> ename (es ! j) \<notin> ename ` set (drop (Suc j) es) \<longrightarrow>
                       (\<exists>v out. call L (es ! j) \<lparr>content = fst (reader ! i), pos = 0\<rparr> (snd (reader ! i))
                                  = (Inr v, out)
                              \<and> map_of d (ename (es ! j)) = Some v))"
  proof (intro allI impI)
    fix i assume i: "i < length reader"
    have "map (record_of L es) reader ! i = map Inr rs ! i"
      using n(5) by simp
    with i n(2) have "record_of L es (fst (reader ! i), snd (reader ! i)) = Inr (rs ! i)"
      by simp
    from record_of_lookup [OF this]
    show "\<exists>d. rs ! i = PDict d
                 \<and> map_of d ''name'' = Some (PStr (snd (reader ! i)))
                 \<and> fst ` set d = insert ''name'' (ename ` set es)
                 \<and> (\<forall>j < length es. ename (es ! j) \<noteq> ''name''
                          \<and> ename (es ! j) \<notin> ename ` set (drop (Suc j) es) \<longrightarrow>
                       (\<exists>v out. call L (es ! j) \<lparr>content = fst (reader ! i), pos = 0\<rparr> (snd (reader ! i))
                                  = (Inr v, out)
                              \<and> map_of d (ename (es ! j)) = Some v))" .
  qed
  from dr n(2) each show ?thesis by blast
qed

theorem extract_records_witness:
  "call sample_lib (new_extractor CBlobExtractor None) (hopen [2]) ''a'' = (Inr (PBytes [2]), [])
   \<and> call sample_lib (new_extractor CBlobExtractor None) (hopen [4]) ''b'' = (Inr (PBytes [4]), [])
   \<and> fst (nexts sample_lib 3
            (extract_gen [([2], ''a''), ([4], ''b'')] [new_extractor CBlobExtractor None] world0))
       = [Yield (PDict [(''BlobExtractor'', PBytes [2]), (''name'', PStr ''a'')]),
          Yield (PDict [(''BlobExtractor'', PBytes [4]), (''name'', PStr ''b'')]),
          StopIteration]
   \<and> (\<exists>recs g. drain sample_lib
                   (extract_gen [([2], ''a''), ([4], ''b'')] [new_extractor CBlobExtractor None] world0)
                 = (recs, None, g)
           \<and> length recs = length [([2] :: bytes, ''a''), ([4], ''b'')])"
proof -
  have c1: "call sample_lib (new_extractor CBlobExtractor None) (hopen [2]) ''a'' = (Inr (PBytes [2]), [])"
    by code_simp
  have c2: "call sample_lib (new_extractor CBlobExtractor None) (hopen [4]) ''b'' = (Inr (PBytes [4]), [])"
    by code_simp
  have h: "\<forall>(nb, nm) \<in> set [([2], ''a''), ([4], ''b'')]. \<forall>e \<in> set [new_extractor CBlobExtractor None].
       \<exists>v out. call sample_lib e (hopen nb) nm = (Inr v, out)"
    using c1 c2 by simp
  have v: "fst (nexts sample_lib 3
            (extract_gen [([2], ''a''), ([4], ''b'')] [new_extractor CBlobExtractor None] world0))
       = [Yield (PDict [(''BlobExtractor'', PBytes [2]), (''name'', PStr ''a'')]),
          Yield (PDict [(''BlobExtractor'', PBytes [4]), (''name'', PStr ''b'')]),
          StopIteration]"
    by code_simp
  from extract_records [OF h, of world0]
  have d: "\<exists>recs g. drain sample_lib
                   (extract_gen [([2], ''a''), ([4], ''b'')] [new_extractor CBlobExtractor None] world0)
                 = (recs, None, g)
           \<and> length recs = length [([2] :: bytes, ''a''), ([4], ''b'')]"
    by (elim exE conjE) (intro exI conjI, assumption+)
  from c1 c2 v d show ?thesis
    by (intro conjI)
qed

text \<open>
  C6. When every extractor returns on the documents before a given one and some
  extractor raises on that one, the consumer gets the records of the documents
  before, then the exception of an extractor that raised on the document instead of a
  record for it, and after that the generator has ended: every further request is
  answered with \<^verbatim>\<open>StopIteration\<close> and the documents after stay unread.
\<close>

theorem extractor_failure_ends_sequence:
  assumes "\<forall>(nb', nm') \<in> set before. \<forall>e \<in> set es. \<exists>v out. call L e (hopen nb') nm' = (Inr v, out)"
    and "\<exists>e \<in> set es. \<exists>err out. call L e (hopen nb) nm = (Inl err, out)"
  shows "\<exists>recs err g.
           drain L (extract_gen (before @ (nb, nm) # rest) es w) = (recs, Some err, g)
         \<and> (\<exists>e \<in> set es. \<exists>out. call L e (hopen nb) nm = (Inl err, out))
         \<and> length recs = length before
         \<and> map (record_of L es) before = map Inr recs
         \<and> fst (nexts L (Suc (length before)) (extract_gen (before @ (nb, nm) # rest) es w))
             = map Yield recs @ [Raise err]
         \<and> finished g \<and> pending g = rest \<and> gen_next L g = (StopIteration, g)"
proof -
  let ?g = "extract_gen (before @ (nb, nm) # rest) es w"
  have g: "\<not> finished ?g" "pending ?g = before @ (nb, nm) # rest" "extractors ?g = es"
    by (simp_all add: extract_gen_def)
  have ok: "\<forall>(nb', nm') \<in> set before. \<forall>e \<in> set (extractors ?g).
              \<exists>v out. call L e (hopen nb') nm' = (Inr v, out)"
    using assms(1) unfolding g(3) .
  from nexts_ok [OF g(1,2) ok] obtain rs g' where
    n: "nexts L (length before) ?g = (map Yield rs, g')" "length rs = length before"
       "\<not> finished g'" "pending g' = (nb, nm) # rest" "extractors g' = es"
       "map (record_of L es) before = map Inr rs"
    unfolding g(3) by blast
  from assms(2) obtain es1 e es2 where
    sp: "es = es1 @ e # es2" "\<exists>err out. call L e (hopen nb) nm = (Inl err, out)"
        "\<forall>e' \<in> set es1. \<not> (\<exists>err out. call L e' (hopen nb) nm = (Inl err, out))"
    using split_list_first_prop [of es "\<lambda>e. \<exists>err out. call L e (hopen nb) nm = (Inl err, out)"]
    by blast
  from sp(2) obtain err out where c: "call L e (hopen nb) nm = (Inl err, out)"
    by blast
  from sp(3) have ok1: "\<forall>e' \<in> set es1. \<exists>v out. call L e' (hopen nb) nm = (Inr v, out)"
    using call_Inl_or_Inr by blast
  from run_extractors_fail [OF ok1 c, of es2 "[]" "world g'"] sp(1) obtain w' where
    run: "run_extractors L es nb nm [] (world g') = (Inl err, w')"
    by auto
  let ?g2 = "g'\<lparr>pending := rest, finished := True, world := w'\<rparr>"
  have step: "gen_next L g' = (Raise err, ?g2)"
    using gen_next_raise [OF n(3,4), of L err w'] run n(5) by simp
  have d': "drain L g' = ([], Some err, ?g2)"
    by (subst drain.simps) (simp add: step)
  have dr: "drain L ?g = (rs, Some err, ?g2)"
    using drain_after_yields [of L rs ?g g'] n(1,2) d' by simp
  have nx: "fst (nexts L (Suc (length before)) ?g) = map Yield rs @ [Raise err]"
    using nexts_then_one [OF n(1) step] by simp
  have e: "\<exists>e \<in> set es. \<exists>out. call L e (hopen nb) nm = (Inl err, out)"
    using c sp(1) by auto
  have fin: "finished ?g2" "pending ?g2 = rest" "gen_next L ?g2 = (StopIteration, ?g2)"
    by (simp_all add: gen_next_def)
  from dr e n(2,6) nx fin show ?thesis by blast
qed

theorem extractor_failure_ends_sequence_witness:
  "call sample_lib (BlobExtractor ''blob'') (hopen [4]) ''a'' = (Inr (PBytes [4]), [])
   \<and> call sample_lib (JSONExtractor ''json'') (hopen [4]) ''a''
        = (Inr (PDict [(''metadata'', PDict sample_meta)]), [])
   \<and> call sample_lib (JSONExtractor ''json'') (hopen [0]) ''bad'' = (Inl ValueError, [])
   \<and> fst (nexts sample_lib 3
            (extract_gen ([([4], ''a'')] @ ([0], ''bad'') # [([2], ''c'')])
               [BlobExtractor ''blob'', JSONExtractor ''json''] world0))
       = [Yield (PDict [(''blob'', PBytes [4]), (''json'', PDict [(''metadata'', PDict sample_meta)]),
                        (''name'', PStr ''a'')]),
          Raise ValueError, StopIteration]
   \<and> (\<exists>recs err g.
           drain sample_lib (extract_gen ([([4], ''a'')] @ ([0], ''bad'') # [([2], ''c'')])
               [BlobExtractor ''blob'', JSONExtractor ''json''] world0) = (recs, Some err, g)
         \<and> length recs = length [([4] :: bytes, ''a'')]
         \<and> finished g \<and> pending g = [([2], ''c'')] \<and> gen_next sample_lib g = (StopIteration, g))"
proof -
  have c1: "call sample_lib (BlobExtractor ''blob'') (hopen [4]) ''a'' = (Inr (PBytes [4]), [])"
    by code_simp
  have c2: "call sample_lib (JSONExtractor ''json'') (hopen [4]) ''a''
        = (Inr (PDict [(''metadata'', PDict sample_meta)]), [])"
    by code_simp
  have c3: "call sample_lib (JSONExtractor ''json'') (hopen [0]) ''bad'' = (Inl ValueError, [])"
    by code_simp
  have h: "\<forall>(nb', nm') \<in> set [([4], ''a'')]. \<forall>e \<in> set [BlobExtractor ''blob'', JSONExtractor ''json''].
       \<exists>v out. call sample_lib e (hopen nb') nm' = (Inr v, out)"
    using c1 c2 by simp
  have f: "\<exists>e \<in> set [BlobExtractor ''blob'', JSONExtractor ''json''].
         \<exists>err out. call sample_lib e (hopen [0]) ''bad'' = (Inl err, out)"
    using c3 by simp
  have v: "fst (nexts sample_lib 3
            (extract_gen ([([4], ''a'')] @ ([0], ''bad'') # [([2], ''c'')])
               [BlobExtractor ''blob'', JSONExtractor ''json''] world0))
       = [Yield (PDict [(''blob'', PBytes [4]), (''json'', PDict [(''metadata'', PDict sample_meta)]),
                        (''name'', PStr ''a'')]),
          Raise ValueError, StopIteration]"
    by code_simp
  from extractor_failure_ends_sequence [OF h f, of "[([2], ''c'')]" world0]
  have d: "\<exists>recs err g.
           drain sample_lib (extract_gen ([([4], ''a'')] @ ([0], ''bad'') # [([2], ''c'')])
               [BlobExtractor ''blob'', JSONExtractor ''json''] world0) = (recs, Some err, g)
         \<and> length recs = length [([4] :: bytes, ''a'')]
         \<and> finished g \<and> pending g = [([2], ''c'')] \<and> gen_next sample_lib g = (StopIteration, g)"
    by (elim exE conjE) (intro exI conjI, assumption+)
  from c1 c2 c3 v d show ?thesis
    by (intro conjI)
qed

text \<open>
  C8. Calling \<^verbatim>\<open>extract\<close> only builds the generator: the world is unchanged and
  nothing is raised. After \<open>k\<close> requests exactly the calls for the first \<open>k\<close>
  documents have been made. When a document is not valid JSON and a
  \<^verbatim>\<open>JSONExtractor\<close> is configured (the extractors before it returning on this
  document), the requests for the documents before it yield their records, and the
  request for this document is the one that raises the parse error.
\<close>

theorem extract_is_lazy:
  assumes "\<forall>(nb', nm') \<in> set before. \<forall>e \<in> set es. \<exists>v out. call L e (hopen nb') nm' = (Inr v, out)"
    and "es = es1 @ JSONExtractor n # es2"
    and "\<forall>e \<in> set es1. \<exists>v out. call L e (hopen nb) nm = (Inr v, out)"
    and "json_loads L nb = Inl err"
  shows "extract_gen (before @ (nb, nm) # rest) es w
           = \<lparr>pending = before @ (nb, nm) # rest, extractors = es, finished = False, world = w\<rparr>
       \<and> (\<forall>k \<le> length before. \<exists>rs g.
             nexts L k (extract_gen (before @ (nb, nm) # rest) es w) = (map Yield rs, g)
           \<and> length rs = k
           \<and> calls (world g) = calls w @ doc_calls es (take k before))
       \<and> (\<exists>rs g.
             nexts L (Suc (length before)) (extract_gen (before @ (nb, nm) # rest) es w)
               = (map Yield rs @ [Raise err], g)
           \<and> length rs = length before
           \<and> calls (world g) = calls w @ doc_calls es before
                                 @ map (\<lambda>e. (ename e, nm)) (es1 @ [JSONExtractor n]))"
proof -
  let ?g = "extract_gen (before @ (nb, nm) # rest) es w"
  have g: "\<not> finished ?g" "extractors ?g = es" "world ?g = w"
    by (simp_all add: extract_gen_def)
  have created: "?g = \<lparr>pending = before @ (nb, nm) # rest, extractors = es, finished = False, world = w\<rparr>"
    by (simp add: extract_gen_def)
  have early: "\<forall>k \<le> length before. \<exists>rs g.
             nexts L k ?g = (map Yield rs, g) \<and> length rs = k
           \<and> calls (world g) = calls w @ doc_calls es (take k before)"
  proof (intro allI impI)
    fix k assume k: "k \<le> length before"
    have p: "pending ?g = take k before @ (drop k before @ (nb, nm) # rest)"
      by (simp add: extract_gen_def)
    have ok: "\<forall>(nb', nm') \<in> set (take k before). \<forall>e \<in> set (extractors ?g).
                \<exists>v out. call L e (hopen nb') nm' = (Inr v, out)"
    proof (intro ballI, clarify)
      fix a b e assume ab: "(a, b) \<in> set (take k before)" and e: "e \<in> set (extractors ?g)"
      from ab have "(a, b) \<in> set before" by (rule in_set_takeD)
      with assms(1) e show "\<exists>v out. call L e (hopen a) b = (Inr v, out)"
        unfolding g(2) by blast
    qed
    have lk: "length (take k before) = k"
      using k by simp
    from nexts_ok [OF g(1) p ok, unfolded lk g(2,3)]
    show "\<exists>rs g. nexts L k ?g = (map Yield rs, g) \<and> length rs = k
           \<and> calls (world g) = calls w @ doc_calls es (take k before)"
      by blast
  qed
  have p: "pending ?g = before @ (nb, nm) # rest"
    by (simp add: extract_gen_def)
  have ok: "\<forall>(nb', nm') \<in> set before. \<forall>e \<in> set (extractors ?g).
              \<exists>v out. call L e (hopen nb') nm' = (Inr v, out)"
    using assms(1) unfolding g(2) .
  from nexts_ok [OF g(1) p ok] obtain rs g' where
    n: "nexts L (length before) ?g = (map Yield rs, g')" "length rs = length before"
       "\<not> finished g'" "pending g' = (nb, nm) # rest" "extractors g' = es"
       "calls (world g') = calls w @ doc_calls es before"
    unfolding g(2,3) by blast
  have c: "call L (JSONExtractor n) (hopen nb) nm = (Inl err, [])"
    using assms(4) by (simp add: JSONExtractor_call_def hopen_def read_def)
  from run_extractors_fail [OF assms(3) c, of es2 "[]" "world g'"] assms(2) obtain w' where
    run: "run_extractors L es nb nm [] (world g') = (Inl err, w')"
    and cw: "calls w' = calls (world g') @ map (\<lambda>e. (ename e, nm)) (es1 @ [JSONExtractor n])"
    by auto
  let ?g2 = "g'\<lparr>pending := rest, finished := True, world := w'\<rparr>"
  have step: "gen_next L g' = (Raise err, ?g2)"
    using gen_next_raise [OF n(3,4), of L err w'] run n(5) by simp
  have late: "\<exists>rs g.
             nexts L (Suc (length before)) ?g = (map Yield rs @ [Raise err], g)
           \<and> length rs = length before
           \<and> calls (world g) = calls w @ doc_calls es before
                                 @ map (\<lambda>e. (ename e, nm)) (es1 @ [JSONExtractor n])"
    using nexts_then_one [OF n(1) step] n(2,6) cw
    by (intro exI [of _ rs] exI [of _ ?g2]) simp
  from created early late show ?thesis by blast
qed

theorem extract_is_lazy_witness:
  "call sample_lib (BlobExtractor ''blob'') (hopen [4]) ''a'' = (Inr (PBytes [4]), [])
   \<and> call sample_lib (JSONExtractor ''json'') (hopen [4]) ''a''
        = (Inr (PDict [(''metadata'', PDict sample_meta)]), [])
   \<and> call sample_lib (BlobExtractor ''blob'') (hopen [0]) ''bad'' = (Inr (PBytes [0]), [])
   \<and> [BlobExtractor ''blob'', JSONExtractor ''json''] = [BlobExtractor ''blob''] @ JSONExtractor ''json'' # []
   \<and> json_loads sample_lib [0] = Inl ValueError
   \<and> (\<exists>rs g.
         nexts sample_lib 1 (extract_gen ([([4], ''a'')] @ ([0], ''bad'') # [([2], ''c'')])
               [BlobExtractor ''blob'', JSONExtractor ''json''] world0) = (map Yield rs, g)
       \<and> length rs = 1
       \<and> calls (world g) = calls world0
            @ doc_calls [BlobExtractor ''blob'', JSONExtractor ''json''] (take 1 [([4], ''a'')]))
   \<and> doc_calls [BlobExtractor ''blob'', JSONExtractor ''json''] (take 1 [([4], ''a'')])
        = [(''blob'', ''a''), (''json'', ''a'')]
   \<and> (\<exists>rs g.
         nexts sample_lib (Suc (length [([4] :: bytes, ''a'')]))
            (extract_gen ([([4], ''a'')] @ ([0], ''bad'') # [([2], ''c'')])
               [BlobExtractor ''blob'', JSONExtractor ''json''] world0)
           = (map Yield rs @ [Raise ValueError], g)
       \<and> length rs = length [([4] :: bytes, ''a'')])"
proof -
  have c1: "call sample_lib (BlobExtractor ''blob'') (hopen [4]) ''a'' = (Inr (PBytes [4]), [])"
    by code_simp
  have c2: "call sample_lib (JSONExtractor ''json'') (hopen [4]) ''a''
        = (Inr (PDict [(''metadata'', PDict sample_meta)]), [])"
    by code_simp
  have c3: "call sample_lib (BlobExtractor ''blob'') (hopen [0]) ''bad'' = (Inr (PBytes [0]), [])"
    by code_simp
  have h: "\<forall>(nb', nm') \<in> set [([4], ''a'')]. \<forall>e \<in> set [BlobExtractor ''blob'', JSONExtractor ''json''].
       \<exists>v out. call sample_lib e (hopen nb') nm' = (Inr v, out)"
    using c1 c2 by simp
  have s: "[BlobExtractor ''blob'', JSONExtractor ''json''] = [BlobExtractor ''blob''] @ JSONExtractor ''json'' # []"
    by simp
  have b: "\<forall>e \<in> set [BlobExtractor ''blob'']. \<exists>v out. call sample_lib e (hopen [0]) ''bad'' = (Inr v, out)"
    using c3 by simp
  have j: "json_loads sample_lib [0] = Inl ValueError"
    by code_simp
  have dc: "doc_calls [BlobExtractor ''blob'', JSONExtractor ''json''] (take 1 [([4], ''a'')])
        = [(''blob'', ''a''), (''json'', ''a'')]"
    by code_simp
  note inst = extract_is_lazy [OF h s b j, of "[([2], ''c'')]" world0]
  from inst have one: "\<exists>rs g.
         nexts sample_lib 1 (extract_gen ([([4], ''a'')] @ ([0], ''bad'') # [([2], ''c'')])
               [BlobExtractor ''blob'', JSONExtractor ''json''] world0) = (map Yield rs, g)
       \<and> length rs = 1
       \<and> calls (world g) = calls world0
            @ doc_calls [BlobExtractor ''blob'', JSONExtractor ''json''] (take 1 [([4], ''a'')])"
    by (elim conjE allE [of _ 1]) simp
  from inst have two: "\<exists>rs g.
         nexts sample_lib (Suc (length [([4] :: bytes, ''a'')]))
            (extract_gen ([([4], ''a'')] @ ([0], ''bad'') # [([2], ''c'')])
               [BlobExtractor ''blob'', JSONExtractor ''json''] world0)
           = (map Yield rs @ [Raise ValueError], g)
       \<and> length rs = length [([4] :: bytes, ''a'')]"
    by (elim exE conjE) (intro exI conjI, assumption+)
  from c1 c2 c3 s j one dc two show ?thesis
    by (intro conjI)
qed

text \<open>
  C7. The name of an extractor of every class is the name given at construction, and
  the name of its class when none (\<^verbatim>\<open>None\<close>) is given. The driver stores an
  extractor's result under exactly this name: the record for one extractor has this
  key and \<^verbatim>\<open>name\<close>, and the keys of every record are the extractors' names and
  \<^verbatim>\<open>name\<close>.
\<close>

theorem extractor_name_is_record_key:
  "ename (new_extractor cls None) = class_name cls
   \<and> ename (new_extractor cls (Some n)) = n
   \<and> ename (MetadataExtractor_init None thumbnails) = ''MetadataExtractor''
   \<and> ename (MetadataExtractor_init (Some n) thumbnails) = n
   \<and> ename (HTMLExtractor_init None template_file) = ''HTMLExtractor''
   \<and> ename (HTMLExtractor_init (Some n) template_file) = n
   \<and> (\<not> finished g \<and> pending g = (nb, nm) # rest \<and> extractors g = [e]
        \<and> call L e (hopen nb) nm = (Inr v, out) \<and> ename e \<noteq> ''name''
      \<longrightarrow> fst (gen_next L g) = Yield (PDict [(ename e, v), (''name'', PStr nm)]))
   \<and> (\<forall>r g'. gen_next L g = (Yield r, g')
      \<longrightarrow> (\<exists>d. r = PDict d \<and> fst ` set d = insert ''name'' (ename ` set (extractors g))))"
proof -
  have names: "ename (new_extractor cls None) = class_name cls"
    "ename (new_extractor cls (Some n)) = n"
    "ename (MetadataExtractor_init None thumbnails) = ''MetadataExtractor''"
    "ename (MetadataExtractor_init (Some n) thumbnails) = n"
    "ename (HTMLExtractor_init None template_file) = ''HTMLExtractor''"
    "ename (HTMLExtractor_init (Some n) template_file) = n"
    by (cases cls; simp add: new_extractor_def Extractor_init_def MetadataExtractor_init_def
                             HTMLExtractor_init_def)+
  have one: "\<not> finished g \<and> pending g = (nb, nm) # rest \<and> extractors g = [e]
        \<and> call L e (hopen nb) nm = (Inr v, out) \<and> ename e \<noteq> ''name''
      \<longrightarrow> fst (gen_next L g) = Yield (PDict [(ename e, v), (''name'', PStr nm)])"
    by (simp add: gen_next_def)
  have keys: "\<forall>r g'. gen_next L g = (Yield r, g')
      \<longrightarrow> (\<exists>d. r = PDict d \<and> fst ` set d = insert ''name'' (ename ` set (extractors g)))"
  proof (intro allI impI)
    fix r g' assume y: "gen_next L g = (Yield r, g')"
    then obtain nb' nm' d w' where
      "run_extractors L (extractors g) nb' nm' [] (world g) = (Inr d, w')"
      "r = PDict (AList.update ''name'' (PStr nm') d)"
      by (auto simp: gen_next_def split: if_splits list.splits prod.splits sum.splits)
    with run_extractors_keys [of L "extractors g" nb' nm' "[]" "world g" d w']
    show "\<exists>d. r = PDict d \<and> fst ` set d = insert ''name'' (ename ` set (extractors g))"
      by (simp add: AList.dom_update)
  qed
  from names one keys show ?thesis by blast
qed

theorem extractor_name_is_record_key_witness:
  "ename (new_extractor CBlobExtractor None) = ''BlobExtractor''
   \<and> ename (new_extractor CBlobExtractor (Some ''raw'')) = ''raw''
   \<and> \<not> finished (extract_gen [([4], ''a'')] [new_extractor CBlobExtractor (Some ''raw'')] world0)
   \<and> call sample_lib (new_extractor CBlobExtractor (Some ''raw'')) (hopen [4]) ''a'' = (Inr (PBytes [4]), [])
   \<and> ename (new_extractor CBlobExtractor (Some ''raw'')) \<noteq> ''name''
   \<and> fst (gen_next sample_lib (extract_gen [([4], ''a'')] [new_extractor CBlobExtractor (Some ''raw'')] world0))
       = Yield (PDict [(''raw'', PBytes [4]), (''name'', PStr ''a'')])"
proof -
  let ?e = "new_extractor CBlobExtractor (Some ''raw'')"
  let ?g = "extract_gen [([4], ''a'')] [?e] world0"
  have a: "\<not> finished ?g" "pending ?g = ([4], ''a'') # []" "extractors ?g = [?e]"
    by (simp_all add: extract_gen_def)
  have c: "call sample_lib ?e (hopen [4]) ''a'' = (Inr (PBytes [4]), [])"
    by code_simp
  have n: "ename ?e = ''raw''" "ename (new_extractor CBlobExtractor None) = ''BlobExtractor''"
    by code_simp+
  from extractor_name_is_record_key
         [of CBlobExtractor "''raw''" PNone PNone ?g "[4]" "''a''" "[]" ?e sample_lib "PBytes [4]" "[]"]
       a c n
  show ?thesis
    by simp
qed

end
